theory Spec2Isabelle
  imports Main "HOL-Library.AList" "HOL-Library.Multiset"
begin

section \<open>Data model of the index-assignment pass\<close>

text \<open>
  The pass of \<^verbatim>\<open>sql/analyzer/assign_indexes.go\<close> works on three families of
  interface values whose implementations live outside the file: expressions, indexes with
  the lookups their drivers build, and the catalog. The expression tree is a datatype; an
  index is a record of what the pass reads of it; everything an interface method computes
  is a field of the record \<open>analyzer\<close>, so that every theorem below holds for every
  implementation of those methods.
\<close>

text \<open>A Go \<^verbatim>\<open>interface{}\<close> value; \<open>VTuple\<close> is a \<^verbatim>\<open>[]interface{}\<close>.\<close>

datatype val = VInt int | VText string | VTuple "val list"

text \<open>The five types behind \<^verbatim>\<open>expression.Comparer\<close> that the pass dispatches on.\<close>

datatype comparer = Equals | LessThan | GreaterThan | LessThanOrEqual | GreaterThanOrEqual

text \<open>
  \<open>GetField table name\<close> is a column reference, \<open>Opaque\<close> any expression type the pass
  does not look into (with its children), \<open>Between val lower upper\<close> follows the field
  names \<^verbatim>\<open>Val\<close>, \<^verbatim>\<open>Lower\<close>, \<^verbatim>\<open>Upper\<close>.
\<close>

datatype expr =
    GetField string string
  | Lit val
  | Opaque string "expr list"
  | And expr expr
  | Or expr expr
  | Comparison comparer expr expr
  | Between expr expr expr
  | In expr expr

text \<open>\<^verbatim>\<open>reflect.TypeOf\<close> of an expression, as \<^verbatim>\<open>groupExpressionsByOperator\<close> compares it.\<close>

datatype exprType =
    TGetField | TLit | TOpaque string | TAnd | TOr | TComparison comparer | TBetween | TIn

fun typeOf :: "expr \<Rightarrow> exprType" where
  "typeOf (GetField t n) = TGetField"
| "typeOf (Lit v) = TLit"
| "typeOf (Opaque k es) = TOpaque k"
| "typeOf (And l r) = TAnd"
| "typeOf (Or l r) = TOr"
| "typeOf (Comparison c l r) = TComparison c"
| "typeOf (Between v lo up) = TBetween"
| "typeOf (In l r) = TIn"

text \<open>
  What the pass reads of a \<^verbatim>\<open>sql.Index\<close>: its identity, \<^verbatim>\<open>Table()\<close>,
  \<^verbatim>\<open>ExpressionHashes()\<close>, and whether its dynamic type implements
  \<^verbatim>\<open>sql.AscendIndex\<close> and \<^verbatim>\<open>sql.DescendIndex\<close>.
\<close>

record index =
  ixId :: string
  ixTable :: string
  ixHashes :: "nat list"
  ixAscend :: bool
  ixDescend :: bool

datatype panic = IndexOutOfRange | InterfaceConversion | NilDereference

text \<open>
  \<open>ErrInvalidInRightEvaluation\<close> is \<^verbatim>\<open>errInvalidInRightEvaluation\<close>; \<open>ErrOther\<close> is an
  error returned by \<^verbatim>\<open>Eval\<close> or by an index driver, with its message; \<open>Panic\<close> is a Go
  run-time panic.
\<close>

datatype error = ErrInvalidInRightEvaluation val | ErrOther string | Panic panic

fun isPanic :: "error \<Rightarrow> bool" where
  "isPanic (Panic p) = True"
| "isPanic e = False"

text \<open>
  The interface methods the pass calls. \<open>'l\<close> is the driver's \<^verbatim>\<open>sql.IndexLookup\<close>.
  \<open>Mergeable l\<close> and \<open>SetOperations l\<close> say that the dynamic type of \<open>l\<close> implements
  \<^verbatim>\<open>sql.Mergeable\<close> and \<^verbatim>\<open>sql.SetOperations\<close>; \<open>Union_lk\<close> and \<open>Intersection_lk\<close> are the
  methods of the latter. The catalog methods are called with \<^verbatim>\<open>a.CurrentDatabase\<close>,
  which never changes during the pass. A method that can return an error returns
  \<open>Inl\<close> of its message; one that returns no error returns a lookup that is not nil.
\<close>

record 'l analyzer =
  IndexByExpression :: "expr list \<Rightarrow> index option"
  ExpressionsWithIndexes :: "expr list \<Rightarrow> expr list list"
  Eval :: "expr \<Rightarrow> string + val"
  NewExpressionHash :: "expr \<Rightarrow> nat"
  Get :: "index \<Rightarrow> val list \<Rightarrow> string + 'l"
  AscendGreaterOrEqual :: "index \<Rightarrow> val list \<Rightarrow> string + 'l"
  AscendLessThan :: "index \<Rightarrow> val list \<Rightarrow> string + 'l"
  AscendRange :: "index \<Rightarrow> val list \<Rightarrow> val list \<Rightarrow> string + 'l"
  DescendGreater :: "index \<Rightarrow> val list \<Rightarrow> string + 'l"
  DescendLessOrEqual :: "index \<Rightarrow> val list \<Rightarrow> string + 'l"
  DescendRange :: "index \<Rightarrow> val list \<Rightarrow> val list \<Rightarrow> string + 'l"
  Mergeable :: "'l \<Rightarrow> bool"
  IsMergeable :: "'l \<Rightarrow> 'l \<Rightarrow> bool"
  SetOperations :: "'l \<Rightarrow> bool"
  Union_lk :: "'l \<Rightarrow> 'l \<Rightarrow> 'l"
  Intersection_lk :: "'l \<Rightarrow> 'l \<Rightarrow> 'l"

text \<open>The struct \<^verbatim>\<open>indexLookup\<close>: a lookup and every index involved in it.\<close>

record 'l indexLookup =
  lookup :: 'l
  indexes :: "index list"

text \<open>
  A \<^verbatim>\<open>map[string]*indexLookup\<close>, as an association list in insertion order;
  \<^verbatim>\<open>m[k] = v\<close> is \<open>AList.update k v m\<close>, \<^verbatim>\<open>m[k]\<close> is \<open>map_of m k\<close>. Go leaves the order of
  a \<^verbatim>\<open>range\<close> over a map open; the model walks the entries in list order.
\<close>

type_synonym 'l lookups = "(string \<times> 'l indexLookup) list"

text \<open>
  The calls the pass makes to the catalog's reference counter: \<open>Borrow\<close> when
  \<^verbatim>\<open>IndexByExpression\<close> hands out an index, \<open>Release\<close> for \<^verbatim>\<open>ReleaseIndex\<close>. Every function
  that reaches the catalog returns the list of its calls, in order.
\<close>

datatype event = Borrow index | Release index

fun borrowed :: "event list \<Rightarrow> index list" where
  "borrowed [] = []"
| "borrowed (Borrow i # es) = i # borrowed es"
| "borrowed (Release i # es) = borrowed es"

fun released :: "event list \<Rightarrow> index list" where
  "released [] = []"
| "released (Borrow i # es) = released es"
| "released (Release i # es) = i # released es"

section \<open>Expression classifier\<close>

fun containsColumns :: "expr \<Rightarrow> bool" where
  "containsColumns (GetField t n) = True"
| "containsColumns (Lit v) = False"
| "containsColumns (Opaque k es) = list_ex containsColumns es"
| "containsColumns (And l r) = (containsColumns l \<or> containsColumns r)"
| "containsColumns (Or l r) = (containsColumns l \<or> containsColumns r)"
| "containsColumns (Comparison c l r) = (containsColumns l \<or> containsColumns r)"
| "containsColumns (Between v lo up) = (containsColumns v \<or> containsColumns lo \<or> containsColumns up)"
| "containsColumns (In l r) = (containsColumns l \<or> containsColumns r)"

definition isEvaluable :: "expr \<Rightarrow> bool" where
  "isEvaluable e = (\<not> containsColumns e)"

section \<open>Combining lookups\<close>

definition canMergeIndexes :: "'l analyzer \<Rightarrow> 'l \<Rightarrow> 'l \<Rightarrow> bool" where
  "canMergeIndexes a x y =
     (if \<not> Mergeable a x then False
      else if \<not> IsMergeable a x y then False
      else SetOperations a x)"

text \<open>
  The second loop of \<^verbatim>\<open>indexesIntersection\<close> and of the \<^verbatim>\<open>Or\<close> case: an entry of the
  right map goes into the result when the result has none for its table.
\<close>

fun putMissing :: "'l lookups \<Rightarrow> 'l lookups \<Rightarrow> 'l lookups" where
  "putMissing [] result = result"
| "putMissing ((table, lk) # rest) result =
     (case map_of result table of
        None \<Rightarrow> putMissing rest (AList.update table lk result)
      | Some x \<Rightarrow> putMissing rest result)"

text \<open>The first loop of \<^verbatim>\<open>indexesIntersection\<close>, with the releases it makes.\<close>

fun intersectLeft ::
  "'l analyzer \<Rightarrow> 'l lookups \<Rightarrow> 'l lookups \<Rightarrow> 'l lookups \<Rightarrow> 'l lookups \<times> event list" where
  "intersectLeft a [] right result = (result, [])"
| "intersectLeft a ((table, idx) # rest) right result =
     (case map_of right table of
        None \<Rightarrow> intersectLeft a rest right (AList.update table idx result)
      | Some idx2 \<Rightarrow>
          if canMergeIndexes a (lookup idx) (lookup idx2)
          then intersectLeft a rest right
                 (AList.update table
                    \<lparr>lookup = Intersection_lk a (lookup idx) (lookup idx2),
                     indexes = indexes idx @ indexes idx2\<rparr> result)
          else (let (res, evs) = intersectLeft a rest right (AList.update table idx result)
                in (res, map Release (indexes idx2) @ evs)))"

definition indexesIntersection ::
  "'l analyzer \<Rightarrow> 'l lookups \<Rightarrow> 'l lookups \<Rightarrow> 'l lookups \<times> event list" where
  "indexesIntersection a left right =
     (let (result, evs) = intersectLeft a left right []
      in (putMissing right result, evs))"

text \<open>The first loop of the \<^verbatim>\<open>Or\<close> case of \<^verbatim>\<open>getIndexes\<close>; it releases nothing.\<close>

fun unionLeft :: "'l analyzer \<Rightarrow> 'l lookups \<Rightarrow> 'l lookups \<Rightarrow> 'l lookups \<Rightarrow> 'l lookups" where
  "unionLeft a [] right result = result"
| "unionLeft a ((table, idx) # rest) right result =
     (case map_of right table of
        None \<Rightarrow> unionLeft a rest right (AList.update table idx result)
      | Some idx2 \<Rightarrow>
          if canMergeIndexes a (lookup idx) (lookup idx2)
          then unionLeft a rest right
                 (AList.update table
                    \<lparr>lookup = Union_lk a (lookup idx) (lookup idx2),
                     indexes = indexes idx @ indexes idx2\<rparr> result)
          else unionLeft a rest right (AList.update table idx result))"

section \<open>Single-predicate lookups\<close>

text \<open>A nil \<^verbatim>\<open>sql.IndexLookup\<close> with a nil error is \<open>Inr None\<close>.\<close>

definition comparisonIndexLookup ::
  "'l analyzer \<Rightarrow> comparer \<Rightarrow> index \<Rightarrow> val list \<Rightarrow> error + 'l option" where
  "comparisonIndexLookup a c idx values =
     (case c of
        Equals \<Rightarrow> map_sum ErrOther Some (Get a idx values)
      | GreaterThan \<Rightarrow>
          if \<not> ixDescend idx then Inr None
          else map_sum ErrOther Some (DescendGreater a idx values)
      | GreaterThanOrEqual \<Rightarrow>
          if \<not> ixAscend idx then Inr None
          else map_sum ErrOther Some (AscendGreaterOrEqual a idx values)
      | LessThan \<Rightarrow>
          if \<not> ixAscend idx then Inr None
          else map_sum ErrOther Some (AscendLessThan a idx values)
      | LessThanOrEqual \<Rightarrow>
          if \<not> ixDescend idx then Inr None
          else map_sum ErrOther Some (DescendLessOrEqual a idx values))"

text \<open>
  \<^verbatim>\<open>getComparisonIndex\<close> returns \<^verbatim>\<open>(idx, lookup, err)\<close>; the index and the lookup are
  either both nil or both set, so they are one optional pair here.
\<close>

definition getComparisonIndex ::
  "'l analyzer \<Rightarrow> comparer \<Rightarrow> expr \<Rightarrow> expr \<Rightarrow> (error + (index \<times> 'l) option) \<times> event list" where
  "getComparisonIndex a c l r =
     (let (left, right) = (if \<not> isEvaluable r then (r, l) else (l, r)) in
      if \<not> isEvaluable left \<and> isEvaluable right then
        (case IndexByExpression a [left] of
           None \<Rightarrow> (Inr None, [])
         | Some idx \<Rightarrow>
             (case Eval a right of
                Inl msg \<Rightarrow> (Inl (ErrOther msg), [Borrow idx, Release idx])
              | Inr v \<Rightarrow>
                  (case comparisonIndexLookup a c idx [v] of
                     Inl err \<Rightarrow> (Inl err, [Borrow idx, Release idx])
                   | Inr None \<Rightarrow> (Inr None, [Borrow idx, Release idx])
                   | Inr (Some lk) \<Rightarrow> (Inr (Some (idx, lk)), [Borrow idx]))))
      else (Inr None, []))"

text \<open>
  The type assertion \<^verbatim>\<open>ascendLookup.(sql.SetOperations)\<close> has no \<^verbatim>\<open>ok\<close> result: it
  panics when the lookup does not implement the interface.
\<close>

definition betweenIndexLookup ::
  "'l analyzer \<Rightarrow> index \<Rightarrow> val list \<Rightarrow> val list \<Rightarrow> error + 'l option" where
  "betweenIndexLookup a idx upper lower =
     (if ixAscend idx \<and> ixDescend idx then
        (case AscendRange a idx lower upper of
           Inl msg \<Rightarrow> Inl (ErrOther msg)
         | Inr ascendLookup \<Rightarrow>
             (case DescendRange a idx upper lower of
                Inl msg \<Rightarrow> Inl (ErrOther msg)
              | Inr descendLookup \<Rightarrow>
                  if Mergeable a ascendLookup \<and> IsMergeable a ascendLookup descendLookup
                  then (if SetOperations a ascendLookup
                        then Inr (Some (Union_lk a ascendLookup descendLookup))
                        else Inl (Panic InterfaceConversion))
                  else Inr None))
      else Inr None)"

text \<open>
  The deferred function of the \<^verbatim>\<open>In\<close> and \<^verbatim>\<open>Between\<close> cases: it reads the local
  \<^verbatim>\<open>result\<close>, which is still the empty map on every path that returns an error or panics.
\<close>

definition releaseUnused :: "index \<Rightarrow> error + 'l lookups \<Rightarrow> event list" where
  "releaseUnused idx res =
     (case res of
        Inl err \<Rightarrow> [Release idx]
      | Inr result \<Rightarrow>
          (case map_of result (ixTable idx) of None \<Rightarrow> [Release idx] | Some x \<Rightarrow> []))"

text \<open>
  The loop over \<^verbatim>\<open>values[1:]\<close> of the \<^verbatim>\<open>In\<close> case. \<open>Inr None\<close> is the early
  \<^verbatim>\<open>return result, nil\<close> taken when two lookups cannot be merged.
\<close>

fun inUnion :: "'l analyzer \<Rightarrow> index \<Rightarrow> 'l \<Rightarrow> val list \<Rightarrow> error + 'l option" where
  "inUnion a idx lk [] = Inr (Some lk)"
| "inUnion a idx lk (v # vs) =
     (case Get a idx [v] of
        Inl msg \<Rightarrow> Inl (ErrOther msg)
      | Inr lookup2 \<Rightarrow>
          if \<not> canMergeIndexes a lk lookup2 then Inr None
          else inUnion a idx (Union_lk a lk lookup2) vs)"

definition inIndexes :: "'l analyzer \<Rightarrow> index \<Rightarrow> expr \<Rightarrow> error + 'l lookups" where
  "inIndexes a idx right =
     (case Eval a right of
        Inl msg \<Rightarrow> Inl (ErrOther msg)
      | Inr v \<Rightarrow>
          (case v of
             VTuple values \<Rightarrow>
               (case values of
                  [] \<Rightarrow> Inl (Panic IndexOutOfRange)
                | v0 # vs \<Rightarrow>
                    (case Get a idx [v0] of
                       Inl msg \<Rightarrow> Inl (ErrOther msg)
                     | Inr lk \<Rightarrow>
                         (case inUnion a idx lk vs of
                            Inl err \<Rightarrow> Inl err
                          | Inr None \<Rightarrow> Inr []
                          | Inr (Some lk') \<Rightarrow>
                              Inr [(ixTable idx, \<lparr>lookup = lk', indexes = [idx]\<rparr>)])))
           | VInt i \<Rightarrow> Inl (ErrInvalidInRightEvaluation v)
           | VText s \<Rightarrow> Inl (ErrInvalidInRightEvaluation v)))"

definition betweenIndexes :: "'l analyzer \<Rightarrow> index \<Rightarrow> expr \<Rightarrow> expr \<Rightarrow> error + 'l lookups" where
  "betweenIndexes a idx lo up =
     (case Eval a up of
        Inl msg \<Rightarrow> Inl (ErrOther msg)
      | Inr upper \<Rightarrow>
          (case Eval a lo of
             Inl msg \<Rightarrow> Inl (ErrOther msg)
           | Inr lower \<Rightarrow>
               (case betweenIndexLookup a idx [upper] [lower] of
                  Inl err \<Rightarrow> Inl err
                | Inr None \<Rightarrow> Inr []
                | Inr (Some lk) \<Rightarrow> Inr [(ixTable idx, \<lparr>lookup = lk, indexes = [idx]\<rparr>)])))"

section \<open>Multi-column lookups\<close>

text \<open>
  \<^verbatim>\<open>splitExpression\<close> is defined in another file of the package.
  Modelled from the spec: "Split conjuncts" -- the conjuncts of a tree of \<open>And\<close> nodes,
  left to right.
\<close>

fun splitExpression :: "expr \<Rightarrow> expr list" where
  "splitExpression (And l r) = splitExpression l @ splitExpression r"
| "splitExpression e = [e]"

text \<open>The measure under which the conjuncts of an \<open>And\<close> are smaller than it.\<close>

definition exprWeight :: "expr \<Rightarrow> nat" where
  "exprWeight e = 2 * size e + 1"

text \<open>
  The struct \<^verbatim>\<open>columnExpr\<close>. Go compares the expressions that key the map \<^verbatim>\<open>used\<close> by
  pointer; \<open>pos\<close>, the position of the conjunct in the list given to
  \<^verbatim>\<open>getMultiColumnIndexes\<close>, stands for the pointer \<^verbatim>\<open>expr\<close>, and \<^verbatim>\<open>used\<close> is a list of
  positions; no expression object occurs twice among the conjuncts, as in a tree built
  by the parser. The comparison \<^verbatim>\<open>e.col == selected[0]\<close> is the equality of two column
  expressions: the catalog answers with the columns it was given. The map from a table to
  its \<^verbatim>\<open>columnExpr\<close>s is an association list in insertion order, like the lookup maps.
\<close>

record columnExpr =
  col :: expr
  colVal :: "expr option"
  colExpr :: expr
  pos :: nat

definition appendColumn ::
  "string \<Rightarrow> columnExpr \<Rightarrow> (string \<times> columnExpr list) list \<Rightarrow> (string \<times> columnExpr list) list" where
  "appendColumn table ce result =
     AList.update table ((case map_of result table of None \<Rightarrow> [] | Some xs \<Rightarrow> xs) @ [ce]) result"

fun columnExprsByTableFrom ::
  "nat \<Rightarrow> expr list \<Rightarrow> (string \<times> columnExpr list) list \<Rightarrow> (string \<times> columnExpr list) list" where
  "columnExprsByTableFrom i [] result = result"
| "columnExprsByTableFrom i (e # es) result =
     columnExprsByTableFrom (Suc i) es
       (case e of
          Comparison c l r \<Rightarrow>
            (let (left, right) = (if \<not> isEvaluable r then (r, l) else (l, r)) in
             if \<not> isEvaluable right then result
             else (case left of
                     GetField t n \<Rightarrow>
                       appendColumn t \<lparr>col = left, colVal = Some right, colExpr = e, pos = i\<rparr> result
                   | _ \<Rightarrow> result))
        | Between v lo up \<Rightarrow>
            if \<not> isEvaluable up \<or> \<not> isEvaluable lo \<or> isEvaluable v then result
            else (case v of
                    GetField t n \<Rightarrow>
                      appendColumn t \<lparr>col = v, colVal = None, colExpr = e, pos = i\<rparr> result
                  | _ \<Rightarrow> result)
        | _ \<Rightarrow> result)"

definition columnExprsByTable :: "expr list \<Rightarrow> (string \<times> columnExpr list) list" where
  "columnExprsByTable exprs = columnExprsByTableFrom 0 exprs []"

text \<open>The inner loop of \<^verbatim>\<open>groupExpressionsByOperator\<close>; a group is never empty.\<close>

fun addToGroup :: "columnExpr \<Rightarrow> columnExpr list list \<Rightarrow> columnExpr list list" where
  "addToGroup e [] = [[e]]"
| "addToGroup e ([] # rest) = [] # addToGroup e rest"
| "addToGroup e ((g # gs) # rest) =
     (if typeOf (colExpr g) = typeOf (colExpr e) then ((g # gs) @ [e]) # rest
      else (g # gs) # addToGroup e rest)"

fun groupExpressionsByOperatorFrom ::
  "columnExpr list \<Rightarrow> columnExpr list list \<Rightarrow> columnExpr list list" where
  "groupExpressionsByOperatorFrom [] result = result"
| "groupExpressionsByOperatorFrom (e # es) result =
     groupExpressionsByOperatorFrom es (addToGroup e result)"

definition groupExpressionsByOperator :: "columnExpr list \<Rightarrow> columnExpr list list" where
  "groupExpressionsByOperator exprs = groupExpressionsByOperatorFrom exprs []"

definition findColumnByHash :: "'l analyzer \<Rightarrow> columnExpr list \<Rightarrow> nat \<Rightarrow> columnExpr option" where
  "findColumnByHash a cols h = find (\<lambda>c. NewExpressionHash a (col c) = h) cols"

text \<open>
  The loop of \<^verbatim>\<open>getMultiColumnIndexes\<close> that picks \<^verbatim>\<open>selected\<close> among the lists the
  catalog returned; the second argument is \<^verbatim>\<open>selected\<close> so far, nil at first.
\<close>

fun selectLongest :: "expr list list \<Rightarrow> expr list \<Rightarrow> expr list" where
  "selectLongest [] selected = selected"
| "selectLongest (l # ls) selected =
     selectLongest ls (if length l > length selected then l else selected)"

text \<open>
  The two loops of \<^verbatim>\<open>getMultiColumnIndexForExpressions\<close> over
  \<^verbatim>\<open>index.ExpressionHashes()\<close>. \<^verbatim>\<open>findColumnByHash\<close> returns nil when no column has the
  hash, and the loop dereferences its result at once.
\<close>

fun comparisonValues ::
  "'l analyzer \<Rightarrow> columnExpr list \<Rightarrow> nat list \<Rightarrow> nat list \<Rightarrow> (error + val list) \<times> nat list" where
  "comparisonValues a exprs [] used = (Inr [], used)"
| "comparisonValues a exprs (h # hs) used =
     (case findColumnByHash a exprs h of
        None \<Rightarrow> (Inl (Panic NilDereference), used)
      | Some c \<Rightarrow>
          (case colVal c of
             None \<Rightarrow> (Inl (Panic NilDereference), pos c # used)
           | Some ve \<Rightarrow>
               (case Eval a ve of
                  Inl msg \<Rightarrow> (Inl (ErrOther msg), pos c # used)
                | Inr v \<Rightarrow>
                    (case comparisonValues a exprs hs (pos c # used) of
                       (Inl err, used') \<Rightarrow> (Inl err, used')
                     | (Inr vs, used') \<Rightarrow> (Inr (v # vs), used')))))"

fun betweenValues ::
  "'l analyzer \<Rightarrow> columnExpr list \<Rightarrow> nat list \<Rightarrow> nat list
     \<Rightarrow> (error + val list \<times> val list) \<times> nat list" where
  "betweenValues a exprs [] used = (Inr ([], []), used)"
| "betweenValues a exprs (h # hs) used =
     (case findColumnByHash a exprs h of
        None \<Rightarrow> (Inl (Panic NilDereference), used)
      | Some c \<Rightarrow>
          (case colExpr c of
             Between v lo up \<Rightarrow>
               (case Eval a lo of
                  Inl msg \<Rightarrow> (Inl (ErrOther msg), pos c # used)
                | Inr lower \<Rightarrow>
                    (case Eval a up of
                       Inl msg \<Rightarrow> (Inl (ErrOther msg), pos c # used)
                     | Inr upper \<Rightarrow>
                         (case betweenValues a exprs hs (pos c # used) of
                            (Inl err, used') \<Rightarrow> (Inl err, used')
                          | (Inr (lowers, uppers), used') \<Rightarrow>
                              (Inr (lower # lowers, upper # uppers), used'))))
           | _ \<Rightarrow> (Inl (Panic InterfaceConversion), pos c # used)))"

text \<open>
  The named results \<^verbatim>\<open>(index, lookup, err)\<close>, the map \<^verbatim>\<open>used\<close> as the function leaves
  it, and the catalog calls. A panic is reported in the place of \<^verbatim>\<open>err\<close>.
\<close>

definition getMultiColumnIndexForExpressions ::
  "'l analyzer \<Rightarrow> expr list \<Rightarrow> columnExpr list \<Rightarrow> nat list
     \<Rightarrow> (index option \<times> 'l option \<times> error option) \<times> nat list \<times> event list" where
  "getMultiColumnIndexForExpressions a selected exprs used =
     (case IndexByExpression a selected of
        None \<Rightarrow> ((None, None, None), used, [])
      | Some idx \<Rightarrow>
          (case exprs of
             [] \<Rightarrow> ((Some idx, None, None), used, [Borrow idx])
           | e0 # es \<Rightarrow>
               (case selected of
                  [] \<Rightarrow> ((Some idx, None, Some (Panic IndexOutOfRange)), used, [Borrow idx])
                | s0 # ss \<Rightarrow>
                    (case find (\<lambda>e. col e = s0) exprs of
                       None \<Rightarrow> ((Some idx, None, None), used, [Borrow idx])
                     | Some first \<Rightarrow>
                         (case colExpr first of
                            Comparison c l r \<Rightarrow>
                              (case comparisonValues a exprs (ixHashes idx) used of
                                 (Inl err, used') \<Rightarrow>
                                   ((Some idx, None, Some err), used', [Borrow idx])
                               | (Inr values, used') \<Rightarrow>
                                   (case comparisonIndexLookup a c idx values of
                                      Inl err \<Rightarrow> ((Some idx, None, Some err), used', [Borrow idx])
                                    | Inr lk \<Rightarrow> ((Some idx, lk, None), used', [Borrow idx])))
                          | Between v lo up \<Rightarrow>
                              (case betweenValues a exprs (ixHashes idx) used of
                                 (Inl err, used') \<Rightarrow>
                                   ((Some idx, None, Some err), used', [Borrow idx])
                               | (Inr (lowers, uppers), used') \<Rightarrow>
                                   (case betweenIndexLookup a idx uppers lowers of
                                      Inl err \<Rightarrow> ((Some idx, None, Some err), used', [Borrow idx])
                                    | Inr lk \<Rightarrow> ((Some idx, lk, None), used', [Borrow idx])))
                          | _ \<Rightarrow> ((Some idx, None, None), used, [Borrow idx]))))))"

text \<open>
  The body of the inner loop of \<^verbatim>\<open>getMultiColumnIndexes\<close> for one group \<open>exps\<close> of one
  table. A panic leaves the function at once; an error releases the index first.
\<close>

definition multiColumnGroup ::
  "'l analyzer \<Rightarrow> string \<Rightarrow> columnExpr list \<Rightarrow> 'l lookups \<Rightarrow> nat list
     \<Rightarrow> (error + 'l lookups) \<times> nat list \<times> event list" where
  "multiColumnGroup a table exps result used =
     (let cols = map col exps;
          exprList = ExpressionsWithIndexes a cols;
          selected = selectLongest exprList []
      in if length selected > 0 then
           (case getMultiColumnIndexForExpressions a selected exps used of
              ((idx, lk, err), used', evs) \<Rightarrow>
                (case err of
                   Some e \<Rightarrow>
                     if isPanic e then (Inl e, used', evs)
                     else (Inl e, used',
                           evs @ (case idx of None \<Rightarrow> [] | Some i \<Rightarrow> [Release i]))
                 | None \<Rightarrow>
                     (case lk of
                        None \<Rightarrow>
                          (Inr result, used',
                           evs @ (case idx of None \<Rightarrow> [] | Some i \<Rightarrow> [Release i]))
                      | Some l \<Rightarrow>
                          (case idx of
                             None \<Rightarrow> (Inr result, used', evs)
                           | Some i \<Rightarrow>
                               (case map_of result table of
                                  Some x \<Rightarrow>
                                    (let (res, evs2) =
                                       indexesIntersection a result
                                         [(table, \<lparr>lookup = l, indexes = [i]\<rparr>)]
                                     in (Inr res, used', evs @ evs2))
                                | None \<Rightarrow>
                                    (Inr (AList.update table \<lparr>lookup = l, indexes = [i]\<rparr> result),
                                     used', evs))))))
         else (Inr result, used, []))"

fun multiColumnGroups ::
  "'l analyzer \<Rightarrow> string \<Rightarrow> columnExpr list list \<Rightarrow> 'l lookups \<Rightarrow> nat list
     \<Rightarrow> (error + 'l lookups) \<times> nat list \<times> event list" where
  "multiColumnGroups a table [] result used = (Inr result, used, [])"
| "multiColumnGroups a table (exps # rest) result used =
     (case multiColumnGroup a table exps result used of
        (Inl err, used', evs) \<Rightarrow> (Inl err, used', evs)
      | (Inr result', used', evs) \<Rightarrow>
          (case multiColumnGroups a table rest result' used' of
             (res, used'', evs2) \<Rightarrow> (res, used'', evs @ evs2)))"

fun multiColumnTables ::
  "'l analyzer \<Rightarrow> (string \<times> columnExpr list) list \<Rightarrow> 'l lookups \<Rightarrow> nat list
     \<Rightarrow> (error + 'l lookups) \<times> nat list \<times> event list" where
  "multiColumnTables a [] result used = (Inr result, used, [])"
| "multiColumnTables a ((table, exps) # rest) result used =
     (case multiColumnGroups a table (groupExpressionsByOperator exps) result used of
        (Inl err, used', evs) \<Rightarrow> (Inl err, used', evs)
      | (Inr result', used', evs) \<Rightarrow>
          (case multiColumnTables a rest result' used' of
             (res, used'', evs2) \<Rightarrow> (res, used'', evs @ evs2)))"

definition getMultiColumnIndexes ::
  "'l analyzer \<Rightarrow> expr list \<Rightarrow> nat list \<Rightarrow> (error + 'l lookups) \<times> nat list \<times> event list" where
  "getMultiColumnIndexes a exprs used = multiColumnTables a (columnExprsByTable exprs) [] used"

section \<open>getIndexes\<close>

text \<open>
  \<open>getIndexes a e\<close> returns the map or the error, and the catalog calls it made.
  \<open>getIndexesUnused\<close> is the loop of the \<^verbatim>\<open>And\<close> case over the conjuncts, \<open>i\<close> being the
  position of the next one.
\<close>

function (sequential) getIndexes :: "'l analyzer \<Rightarrow> expr \<Rightarrow> (error + 'l lookups) \<times> event list"
  and getIndexesUnused ::
    "'l analyzer \<Rightarrow> nat \<Rightarrow> expr list \<Rightarrow> nat list \<Rightarrow> 'l lookups \<Rightarrow> (error + 'l lookups) \<times> event list"
where
  "getIndexes a (Or l r) =
     (case getIndexes a l of
        (Inl err, evs) \<Rightarrow> (Inl err, evs)
      | (Inr leftIndexes, evs) \<Rightarrow>
          (case getIndexes a r of
             (Inl err, evs2) \<Rightarrow> (Inl err, evs @ evs2)
           | (Inr rightIndexes, evs2) \<Rightarrow>
               (Inr (putMissing rightIndexes (unionLeft a leftIndexes rightIndexes [])),
                evs @ evs2)))"
| "getIndexes a (In l r) =
     (if \<not> isEvaluable l \<and> isEvaluable r then
        (case IndexByExpression a [l] of
           None \<Rightarrow> (Inr [], [])
         | Some idx \<Rightarrow>
             (let res = inIndexes a idx r in (res, Borrow idx # releaseUnused idx res)))
      else (Inr [], []))"
| "getIndexes a (Comparison c l r) =
     (case getComparisonIndex a c l r of
        (Inl err, evs) \<Rightarrow> (Inl err, evs)
      | (Inr None, evs) \<Rightarrow> (Inr [], evs)
      | (Inr (Some (idx, lk)), evs) \<Rightarrow>
          (Inr [(ixTable idx, \<lparr>lookup = lk, indexes = [idx]\<rparr>)], evs))"
| "getIndexes a (Between v lo up) =
     (if \<not> isEvaluable v \<and> isEvaluable up \<and> isEvaluable lo then
        (case IndexByExpression a [v] of
           None \<Rightarrow> (Inr [], [])
         | Some idx \<Rightarrow>
             (let res = betweenIndexes a idx lo up in (res, Borrow idx # releaseUnused idx res)))
      else (Inr [], []))"
| "getIndexes a (And l r) =
     (let exprs = splitExpression (And l r) in
      case getMultiColumnIndexes a exprs [] of
        (Inl err, used, evs) \<Rightarrow> (Inl err, evs)
      | (Inr result, used, evs) \<Rightarrow>
          (case getIndexesUnused a 0 exprs used result of
             (res, evs2) \<Rightarrow> (res, evs @ evs2)))"
| "getIndexes a e = (Inr [], [])"
| "getIndexesUnused a i [] used result = (Inr result, [])"
| "getIndexesUnused a i (e # es) used result =
     (if i \<in> set used then getIndexesUnused a (Suc i) es used result
      else
        (case getIndexes a e of
           (Inl err, evs) \<Rightarrow> (Inl err, evs)
         | (Inr found, evs) \<Rightarrow>
             (let (result', evs2) = indexesIntersection a result found in
              case getIndexesUnused a (Suc i) es used result' of
                (res, evs3) \<Rightarrow> (res, evs @ evs2 @ evs3))))"
  by pat_completeness auto

termination
proof (relation "measure (\<lambda>x. case x of
          Inl (a, e) \<Rightarrow> 2 * exprWeight e
        | Inr (a, i, es, used, result) \<Rightarrow> 2 * sum_list (map exprWeight es) + 1)",
       goal_cases)
  case 1
  show ?case by simp
next
  case (2 a l r)
  show ?case by (simp add: exprWeight_def)
next
  case (3 a l r x xa y)
  show ?case by (simp add: exprWeight_def)
next
  case (4 a l r x xa y xb ya)
  have w: "sum_list (map exprWeight (splitExpression e)) \<le> exprWeight e" for e
    by (induction e rule: splitExpression.induct) (simp_all add: exprWeight_def)
  have "sum_list (map exprWeight (splitExpression l @ splitExpression r))
          \<le> exprWeight l + exprWeight r"
    using w [of l] w [of r] by simp
  with 4 show ?case by (simp add: exprWeight_def)
next
  case (5 a i e es used result)
  show ?case by (simp add: exprWeight_def)
next
  case (6 a i e es used result)
  show ?case by (simp add: exprWeight_def)
next
  case (7 a i e es used result x xa y xb ya)
  show ?case by (simp add: exprWeight_def)
qed

section \<open>The pass over a plan\<close>

text \<open>
  The plan nodes the pass tells apart: \<open>Table name\<close> is a table that implements
  \<^verbatim>\<open>sql.Indexable\<close> and is neither of the two types the pass skips;
  \<open>indexable idx name\<close> is the wrapper \<^verbatim>\<open>&indexable{index, table}\<close> around the table
  called \<open>name\<close>; \<open>Node kind children\<close> is any other node with its children.
\<close>

datatype 'l node =
    Filter expr "'l node"
  | Table string
  | IndexableTable string
  | indexable "'l indexLookup" string
  | UnresolvedTable string
  | Node string "'l node list"

text \<open>
  \<^verbatim>\<open>Resolved\<close> is a method of each node type, defined outside the file but for the
  wrapper, which asks the table it wraps.
  Modelled from the spec: "If the plan is not fully resolved, return it unchanged" -- a
  plan is resolved when it has no unresolved table in it.
\<close>

fun Resolved :: "'l node \<Rightarrow> bool" where
  "Resolved (Filter e child) = Resolved child"
| "Resolved (Table name) = True"
| "Resolved (IndexableTable name) = True"
| "Resolved (indexable idx name) = True"
| "Resolved (UnresolvedTable name) = False"
| "Resolved (Node kind children) = list_all Resolved children"

definition panicked :: "error option \<Rightarrow> bool" where
  "panicked err = (case err of None \<Rightarrow> False | Some e \<Rightarrow> isPanic e)"

text \<open>
  The walk \<^verbatim>\<open>plan.Inspect(node, f)\<close> with the function literal of \<^verbatim>\<open>assignIndexes\<close> as
  \<open>f\<close>; its state is the pair of the variables \<^verbatim>\<open>err\<close> and \<^verbatim>\<open>indexes\<close> that \<open>f\<close>
  assigns, \<open>None\<close> being nil. \<^verbatim>\<open>plan.Inspect\<close> is defined outside the file.
  Modelled from the spec: "Walk the plan top-down. For every Filter node, compute
  indexes_for(filter.predicate); fold into a running LookupMap via intersect" -- \<open>f\<close> is
  called on a node before its children, the children are walked from left to right when
  \<open>f\<close> answers true and are skipped when it answers false. On a filter \<open>f\<close> assigns
  \<^verbatim>\<open>err\<close> whatever \<^verbatim>\<open>getIndexes\<close> returned, nil included. A panic ends the walk.
\<close>

fun inspectNode ::
    "'l analyzer \<Rightarrow> 'l node \<Rightarrow> error option \<times> 'l lookups option
       \<Rightarrow> (error option \<times> 'l lookups option) \<times> event list"
  and inspectNodes ::
    "'l analyzer \<Rightarrow> 'l node list \<Rightarrow> error option \<times> 'l lookups option
       \<Rightarrow> (error option \<times> 'l lookups option) \<times> event list"
where
  "inspectNode a (Filter e child) st =
     (case getIndexes a e of
        (Inl err, evs) \<Rightarrow> ((Some err, snd st), evs)
      | (Inr result, evs) \<Rightarrow>
          (case snd st of
             None \<Rightarrow>
               (case inspectNode a child (None, Some result) of
                  (st', evs3) \<Rightarrow> (st', evs @ evs3))
           | Some found \<Rightarrow>
               (let (merged, evs2) = indexesIntersection a found result in
                case inspectNode a child (None, Some merged) of
                  (st', evs3) \<Rightarrow> (st', evs @ evs2 @ evs3))))"
| "inspectNode a (Node kind children) st = inspectNodes a children st"
| "inspectNode a (Table name) st = (st, [])"
| "inspectNode a (IndexableTable name) st = (st, [])"
| "inspectNode a (indexable idx name) st = (st, [])"
| "inspectNode a (UnresolvedTable name) st = (st, [])"
| "inspectNodes a [] st = (st, [])"
| "inspectNodes a (c # cs) st =
     (case inspectNode a c st of
        (st', evs) \<Rightarrow>
          if panicked (fst st') then (st', evs)
          else (case inspectNodes a cs st' of (st'', evs2) \<Rightarrow> (st'', evs @ evs2)))"

text \<open>
  \<^verbatim>\<open>node.TransformUp(f)\<close> with the function literal of \<^verbatim>\<open>assignIndexes\<close> as \<open>f\<close>, which
  reads and shrinks the map \<^verbatim>\<open>indexes\<close>. \<^verbatim>\<open>TransformUp\<close> of the wrapper is in the file;
  that of the other nodes is not.
  Modelled from the spec: "Rewrite the plan bottom-up" -- the children of a node are
  transformed from left to right, then \<open>f\<close> is applied to the node.
\<close>

fun transformUp :: "'l node \<Rightarrow> 'l lookups \<Rightarrow> 'l node \<times> 'l lookups"
  and transformUpAll :: "'l node list \<Rightarrow> 'l lookups \<Rightarrow> 'l node list \<times> 'l lookups"
where
  "transformUp (Table name) found =
     (case map_of found name of
        None \<Rightarrow> (Table name, found)
      | Some idx \<Rightarrow> (indexable idx name, AList.delete name found))"
| "transformUp (IndexableTable name) found = (IndexableTable name, found)"
| "transformUp (indexable idx name) found = (indexable idx name, found)"
| "transformUp (UnresolvedTable name) found = (UnresolvedTable name, found)"
| "transformUp (Filter e child) found =
     (case transformUp child found of (child', found') \<Rightarrow> (Filter e child', found'))"
| "transformUp (Node kind children) found =
     (case transformUpAll children found of
        (children', found') \<Rightarrow> (Node kind children', found'))"
| "transformUpAll [] found = ([], found)"
| "transformUpAll (c # cs) found =
     (case transformUp c found of
        (c', found') \<Rightarrow>
          (case transformUpAll cs found' of (cs', found'') \<Rightarrow> (c' # cs', found'')))"

text \<open>The deferred function of \<^verbatim>\<open>assignIndexes\<close>; a nil map holds nothing.\<close>

definition releaseAll :: "'l lookups \<Rightarrow> event list" where
  "releaseAll found = concat (map (\<lambda>(table, i). map Release (indexes i)) found)"

definition entries :: "'l lookups option \<Rightarrow> 'l lookups" where
  "entries found = (case found of None \<Rightarrow> [] | Some m \<Rightarrow> m)"

text \<open>
  \<open>assignIndexes a node\<close> returns the new plan, or \<open>Inl\<close> of the error for the Go result
  \<^verbatim>\<open>(nil, err)\<close>, and every call it made to the catalog.
\<close>

definition assignIndexes :: "'l analyzer \<Rightarrow> 'l node \<Rightarrow> (error + 'l node) \<times> event list" where
  "assignIndexes a node =
     (if \<not> Resolved node then (Inr node, [])
      else
        (case inspectNode a node (None, None) of
           ((err, found), evs) \<Rightarrow>
             (case err of
                Some e \<Rightarrow> (Inl e, evs @ releaseAll (entries found))
              | None \<Rightarrow>
                  (case transformUp node (entries found) of
                     (node', rest) \<Rightarrow> (Inr node', evs @ releaseAll rest)))))"

text \<open>The indexes that a plan holds inside its wrappers.\<close>

fun embedded :: "'l node \<Rightarrow> index list"
  and embeddedAll :: "'l node list \<Rightarrow> index list"
where
  "embedded (indexable idx name) = indexes idx"
| "embedded (Filter e child) = embedded child"
| "embedded (Node kind children) = embeddedAll children"
| "embedded (Table name) = []"
| "embedded (IndexableTable name) = []"
| "embedded (UnresolvedTable name) = []"
| "embeddedAll [] = []"
| "embeddedAll (c # cs) = embedded c @ embeddedAll cs"

section \<open>A catalog and a driver to run the pass on\<close>

text \<open>
  A driver whose lookups are the terms that built them, each leaf naming the index it
  reads. Every lookup implements both optional interfaces, and two lookups merge when
  they read the same index.
\<close>

datatype memLookup =
    GetLookup string "val list"
  | AscendGreaterOrEqualLookup string "val list"
  | AscendLessThanLookup string "val list"
  | AscendRangeLookup string "val list" "val list"
  | DescendGreaterLookup string "val list"
  | DescendLessOrEqualLookup string "val list"
  | DescendRangeLookup string "val list" "val list"
  | UnionLookup memLookup memLookup
  | IntersectionLookup memLookup memLookup

fun lookupIndex :: "memLookup \<Rightarrow> string" where
  "lookupIndex (GetLookup i k) = i"
| "lookupIndex (AscendGreaterOrEqualLookup i k) = i"
| "lookupIndex (AscendLessThanLookup i k) = i"
| "lookupIndex (AscendRangeLookup i k k') = i"
| "lookupIndex (DescendGreaterLookup i k) = i"
| "lookupIndex (DescendLessOrEqualLookup i k) = i"
| "lookupIndex (DescendRangeLookup i k k') = i"
| "lookupIndex (UnionLookup x y) = lookupIndex x"
| "lookupIndex (IntersectionLookup x y) = lookupIndex x"

text \<open>
  Table \<open>t\<close> has columns \<open>a\<close> and \<open>b\<close>, table \<open>u\<close> has column \<open>c\<close>. \<open>idx_a\<close> walks both
  ways, \<open>idx_b\<close> only upwards, \<open>idx_ab\<close> is the composite index on \<open>(a, b)\<close>.
\<close>

definition idx_a :: index where
  "idx_a = \<lparr>ixId = ''idx_a'', ixTable = ''t'', ixHashes = [1], ixAscend = True, ixDescend = True\<rparr>"

definition idx_b :: index where
  "idx_b = \<lparr>ixId = ''idx_b'', ixTable = ''t'', ixHashes = [2], ixAscend = True, ixDescend = False\<rparr>"

definition idx_ab :: index where
  "idx_ab = \<lparr>ixId = ''idx_ab'', ixTable = ''t'', ixHashes = [1, 2], ixAscend = True, ixDescend = True\<rparr>"

definition idx_c :: index where
  "idx_c = \<lparr>ixId = ''idx_c'', ixTable = ''u'', ixHashes = [3], ixAscend = True, ixDescend = True\<rparr>"

definition memCatalog :: "(expr list \<times> index) list" where
  "memCatalog =
     [([GetField ''t'' ''a''], idx_a),
      ([GetField ''t'' ''b''], idx_b),
      ([GetField ''t'' ''a'', GetField ''t'' ''b''], idx_ab),
      ([GetField ''u'' ''c''], idx_c)]"

fun memHash :: "expr \<Rightarrow> nat" where
  "memHash (GetField t n) = (if n = ''a'' then 1 else if n = ''b'' then 2 else 3)"
| "memHash e = 0"

fun memEval :: "expr \<Rightarrow> string + val" where
  "memEval (Lit v) = Inr v"
| "memEval e = Inl ''cannot evaluate''"

definition memAnalyzer :: "memLookup analyzer" where
  "memAnalyzer =
     \<lparr>IndexByExpression = map_of memCatalog,
      ExpressionsWithIndexes =
        (\<lambda>cols. map fst (filter (\<lambda>(ks, i). length ks > 1 \<and> list_all (\<lambda>k. k \<in> set cols) ks)
                   memCatalog)),
      Eval = memEval,
      NewExpressionHash = memHash,
      Get = (\<lambda>i k. Inr (GetLookup (ixId i) k)),
      AscendGreaterOrEqual = (\<lambda>i k. Inr (AscendGreaterOrEqualLookup (ixId i) k)),
      AscendLessThan = (\<lambda>i k. Inr (AscendLessThanLookup (ixId i) k)),
      AscendRange = (\<lambda>i k k'. Inr (AscendRangeLookup (ixId i) k k')),
      DescendGreater = (\<lambda>i k. Inr (DescendGreaterLookup (ixId i) k)),
      DescendLessOrEqual = (\<lambda>i k. Inr (DescendLessOrEqualLookup (ixId i) k)),
      DescendRange = (\<lambda>i k k'. Inr (DescendRangeLookup (ixId i) k k')),
      Mergeable = (\<lambda>x. True),
      IsMergeable = (\<lambda>x y. lookupIndex x = lookupIndex y),
      SetOperations = (\<lambda>x. True),
      Union_lk = UnionLookup,
      Intersection_lk = IntersectionLookup\<rparr>"

text \<open>The same driver with lookups that refuse to merge with the point lookup of key 3.\<close>

definition pickyAnalyzer :: "memLookup analyzer" where
  "pickyAnalyzer =
     memAnalyzer\<lparr>IsMergeable :=
       (\<lambda>x y. lookupIndex x = lookupIndex y \<and> y \<noteq> GetLookup ''idx_a'' [VInt 3])\<rparr>"

text \<open>
  The same driver with lookups that implement \<^verbatim>\<open>sql.Mergeable\<close> and not
  \<^verbatim>\<open>sql.SetOperations\<close>.
\<close>

definition plainAnalyzer :: "memLookup analyzer" where
  "plainAnalyzer = memAnalyzer\<lparr>SetOperations := (\<lambda>x. False)\<rparr>"

definition a_eq_1 :: expr where
  "a_eq_1 = Comparison Equals (GetField ''t'' ''a'') (Lit (VInt 1))"

definition b_eq_2 :: expr where
  "b_eq_2 = Comparison Equals (GetField ''t'' ''b'') (Lit (VInt 2))"

definition c_eq_2 :: expr where
  "c_eq_2 = Comparison Equals (GetField ''u'' ''c'') (Lit (VInt 2))"

definition b_in_2 :: expr where
  "b_in_2 = In (GetField ''t'' ''b'') (Lit (VInt 2))"

definition a_in_123 :: expr where
  "a_in_123 = In (GetField ''t'' ''a'') (Lit (VTuple [VInt 1, VInt 2, VInt 3]))"

definition get_a_1 :: "memLookup indexLookup" where
  "get_a_1 = \<lparr>lookup = GetLookup ''idx_a'' [VInt 1], indexes = [idx_a]\<rparr>"

definition get_b_2 :: "memLookup indexLookup" where
  "get_b_2 = \<lparr>lookup = GetLookup ''idx_b'' [VInt 2], indexes = [idx_b]\<rparr>"

definition get_c_2 :: "memLookup indexLookup" where
  "get_c_2 = \<lparr>lookup = GetLookup ''idx_c'' [VInt 2], indexes = [idx_c]\<rparr>"

text \<open>
  The same driver with a catalog that answers a request for the columns \<open>a\<close> and \<open>b\<close> of
  \<open>t\<close> with three lists, the first of them shorter than the two others.
\<close>

definition wideAnalyzer :: "memLookup analyzer" where
  "wideAnalyzer =
     memAnalyzer\<lparr>ExpressionsWithIndexes :=
       (\<lambda>cols. if GetField ''t'' ''a'' \<in> set cols \<and> GetField ''t'' ''b'' \<in> set cols
               then [[GetField ''t'' ''a''],
                     [GetField ''t'' ''a'', GetField ''t'' ''b''],
                     [GetField ''t'' ''b'', GetField ''t'' ''a'']]
               else [])\<rparr>"

text \<open>
  The group of the conjuncts \<open>t.a = 1\<close> and \<open>t.b = 2\<close>, as \<^verbatim>\<open>columnExprsByTable\<close> builds it,
  and the lists that catalog returns for it.
\<close>

definition ab_columns :: "columnExpr list" where
  "ab_columns =
     [\<lparr>col = GetField ''t'' ''a'', colVal = Some (Lit (VInt 1)), colExpr = a_eq_1, pos = 0\<rparr>,
      \<lparr>col = GetField ''t'' ''b'', colVal = Some (Lit (VInt 2)), colExpr = b_eq_2, pos = 1\<rparr>]"

definition ab_candidates :: "expr list list" where
  "ab_candidates =
     [[GetField ''t'' ''a''],
      [GetField ''t'' ''a'', GetField ''t'' ''b''],
      [GetField ''t'' ''b'', GetField ''t'' ''a'']]"

text \<open>The names of the tables of a plan that the pass may still wrap, from left to right.\<close>

fun tableNames :: "'l node \<Rightarrow> string list"
  and tableNamesAll :: "'l node list \<Rightarrow> string list"
where
  "tableNames (Table name) = [name]"
| "tableNames (Filter e child) = tableNames child"
| "tableNames (Node kind children) = tableNamesAll children"
| "tableNames (IndexableTable name) = []"
| "tableNames (indexable idx name) = []"
| "tableNames (UnresolvedTable name) = []"
| "tableNamesAll [] = []"
| "tableNamesAll (c # cs) = tableNames c @ tableNamesAll cs"

text \<open>
  The indexes that a lookup map holds, entry by entry; these are the ones the deferred
  function of \<^verbatim>\<open>assignIndexes\<close> releases.
\<close>

definition held :: "'l lookups \<Rightarrow> index list" where
  "held found = concat (map (\<lambda>(table, i). indexes i) found)"

text \<open>
  Predicates that \<^verbatim>\<open>getIndexes\<close> handles without a recursive call, and plans all of
  whose filters hold such a predicate.
\<close>

fun simplePredicate :: "expr \<Rightarrow> bool" where
  "simplePredicate (And l r) = False"
| "simplePredicate (Or l r) = False"
| "simplePredicate e = True"

fun simpleFilters :: "'l node \<Rightarrow> bool"
  and simpleFiltersAll :: "'l node list \<Rightarrow> bool"
where
  "simpleFilters (Filter e child) = (simplePredicate e \<and> simpleFilters child)"
| "simpleFilters (Node kind children) = simpleFiltersAll children"
| "simpleFilters (Table name) = True"
| "simpleFilters (IndexableTable name) = True"
| "simpleFilters (indexable idx name) = True"
| "simpleFilters (UnresolvedTable name) = True"
| "simpleFiltersAll [] = True"
| "simpleFiltersAll (c # cs) = (simpleFilters c \<and> simpleFiltersAll cs)"

section \<open>Auxiliary facts\<close>

lemma putMissing_map_of:
  "map_of (putMissing right result) t =
     (case map_of result t of None \<Rightarrow> map_of right t | Some x \<Rightarrow> Some x)"
proof (induction right arbitrary: result)
  case Nil
  show ?case by (simp split: option.split)
next
  case (Cons p rest)
  obtain k v where p: "p = (k, v)" by (cases p)
  show ?case
  proof (cases "map_of result k")
    case None
    then show ?thesis
      using Cons.IH [of "AList.update k v result"]
      by (simp add: p update_conv' split: option.split)
  next
    case (Some x)
    then show ?thesis
      using Cons.IH [of result] by (auto simp add: p split: option.split)
  qed
qed

lemma intersectLeft_map_of:
  "distinct (map fst left) \<Longrightarrow>
   map_of (fst (intersectLeft a left right result)) t =
     (case map_of left t of
        None \<Rightarrow> map_of result t
      | Some idx \<Rightarrow>
          (case map_of right t of
             None \<Rightarrow> Some idx
           | Some idx2 \<Rightarrow>
               if canMergeIndexes a (lookup idx) (lookup idx2)
               then Some \<lparr>lookup = Intersection_lk a (lookup idx) (lookup idx2),
                          indexes = indexes idx @ indexes idx2\<rparr>
               else Some idx))"
proof (induction left arbitrary: result t)
  case Nil
  show ?case by simp
next
  case (Cons p rest)
  obtain k v where p: "p = (k, v)" by (cases p)
  from Cons.prems have d: "distinct (map fst rest)" and k: "map_of rest k = None"
    by (auto simp add: p map_of_eq_None_iff)
  show ?case
  proof (cases "t = k")
    case True
    then show ?thesis
      using Cons.IH [OF d, where t = k] k
      by (simp add: p update_conv' split_beta split: option.split)
  next
    case False
    then show ?thesis
      using Cons.IH [OF d, where t = t]
      by (simp add: p update_conv' split_beta split: option.split)
  qed
qed

lemma intersectLeft_events:
  "snd (intersectLeft a left right result) =
     concat (map (\<lambda>(table, idx).
       case map_of right table of
         None \<Rightarrow> []
       | Some idx2 \<Rightarrow>
           if canMergeIndexes a (lookup idx) (lookup idx2) then []
           else map Release (indexes idx2)) left)"
proof (induction left arbitrary: result)
  case Nil
  show ?case by simp
next
  case (Cons p rest)
  obtain k v where p: "p = (k, v)" by (cases p)
  show ?case
    using Cons.IH by (simp add: p split_beta split: option.split)
qed

lemma indexesIntersection_fst:
  "fst (indexesIntersection a left right) = putMissing right (fst (intersectLeft a left right []))"
  by (simp add: indexesIntersection_def split: prod.split)

lemma indexesIntersection_snd:
  "snd (indexesIntersection a left right) = snd (intersectLeft a left right [])"
  by (simp add: indexesIntersection_def split: prod.split)

lemma unionLeft_map_of:
  "distinct (map fst left) \<Longrightarrow>
   map_of (unionLeft a left right result) t =
     (case map_of left t of
        None \<Rightarrow> map_of result t
      | Some idx \<Rightarrow>
          (case map_of right t of
             None \<Rightarrow> Some idx
           | Some idx2 \<Rightarrow>
               if canMergeIndexes a (lookup idx) (lookup idx2)
               then Some \<lparr>lookup = Union_lk a (lookup idx) (lookup idx2),
                          indexes = indexes idx @ indexes idx2\<rparr>
               else Some idx))"
proof (induction left arbitrary: result t)
  case Nil
  show ?case by simp
next
  case (Cons p rest)
  obtain k v where p: "p = (k, v)" by (cases p)
  from Cons.prems have d: "distinct (map fst rest)" and k: "map_of rest k = None"
    by (auto simp add: p map_of_eq_None_iff)
  show ?case
  proof (cases "t = k")
    case True
    then show ?thesis
      using Cons.IH [OF d, where t = k] k
      by (simp add: p update_conv' split: option.split)
  next
    case False
    then show ?thesis
      using Cons.IH [OF d, where t = t]
      by (simp add: p update_conv' split: option.split)
  qed
qed

lemma putMissing_distinct:
  "distinct (map fst result) \<Longrightarrow> distinct (map fst (putMissing right result))"
proof (induction right arbitrary: result)
  case Nil
  then show ?case by simp
next
  case (Cons p rest)
  obtain k v where p: "p = (k, v)" by (cases p)
  show ?case
    using Cons.IH [of "AList.update k v result"] Cons.IH [of result] Cons.prems
    by (simp add: p distinct_update split: option.split)
qed

lemma intersectLeft_distinct:
  "distinct (map fst result) \<Longrightarrow> distinct (map fst (fst (intersectLeft a left right result)))"
proof (induction left arbitrary: result)
  case Nil
  then show ?case by simp
next
  case (Cons p rest)
  obtain k v where p: "p = (k, v)" by (cases p)
  show ?case
    using Cons.IH Cons.prems
    by (simp add: p distinct_update split_beta split: option.split)
qed

lemma unionLeft_distinct:
  "distinct (map fst result) \<Longrightarrow> distinct (map fst (unionLeft a left right result))"
proof (induction left arbitrary: result)
  case Nil
  then show ?case by simp
next
  case (Cons p rest)
  obtain k v where p: "p = (k, v)" by (cases p)
  show ?case
    using Cons.IH Cons.prems
    by (simp add: p distinct_update split: option.split)
qed

lemma indexesIntersection_distinct:
  "distinct (map fst (fst (indexesIntersection a left right)))"
  by (simp add: indexesIntersection_def split_beta putMissing_distinct intersectLeft_distinct)

lemma multiColumnGroup_distinct:
  "distinct (map fst result) \<Longrightarrow> fst (multiColumnGroup a table exps result used) = Inr res
     \<Longrightarrow> distinct (map fst res)"
  using indexesIntersection_distinct [of a result]
  by (auto simp add: multiColumnGroup_def Let_def distinct_update split_beta
        split: if_splits option.splits)

lemma multiColumnGroups_distinct:
  "distinct (map fst result) \<Longrightarrow> fst (multiColumnGroups a table groups result used) = Inr res
     \<Longrightarrow> distinct (map fst res)"
proof (induction groups arbitrary: result used)
  case Nil
  then show ?case by simp
next
  case (Cons g gs)
  obtain r1 u1 e1 where g: "multiColumnGroup a table g result used = (r1, u1, e1)"
    by (cases "multiColumnGroup a table g result used") auto
  show ?case
  proof (cases r1)
    case (Inl err)
    with Cons.prems g show ?thesis by simp
  next
    case (Inr m)
    with g Cons.prems(1) have d: "distinct (map fst m)"
      using multiColumnGroup_distinct [of result a table g used m] by simp
    from Cons.prems(2) g Inr have "fst (multiColumnGroups a table gs m u1) = Inr res"
      by (simp add: split_beta)
    with Cons.IH [OF d] show ?thesis by simp
  qed
qed

lemma multiColumnTables_distinct:
  "distinct (map fst result) \<Longrightarrow> fst (multiColumnTables a tables result used) = Inr res
     \<Longrightarrow> distinct (map fst res)"
proof (induction tables arbitrary: result used)
  case Nil
  then show ?case by simp
next
  case (Cons p ps)
  obtain table exps where p: "p = (table, exps)" by (cases p)
  obtain r1 u1 e1 where
    g: "multiColumnGroups a table (groupExpressionsByOperator exps) result used = (r1, u1, e1)"
    by (cases "multiColumnGroups a table (groupExpressionsByOperator exps) result used") auto
  show ?case
  proof (cases r1)
    case (Inl err)
    with Cons.prems g p show ?thesis by simp
  next
    case (Inr m)
    with g Cons.prems(1) have d: "distinct (map fst m)"
      using multiColumnGroups_distinct
              [of result a table "groupExpressionsByOperator exps" used m] by simp
    from Cons.prems(2) g Inr p have "fst (multiColumnTables a ps m u1) = Inr res"
      by (simp add: split_beta)
    with Cons.IH [OF d] show ?thesis by simp
  qed
qed

lemma getIndexesUnused_distinct:
  "distinct (map fst result) \<Longrightarrow> fst (getIndexesUnused a i es used result) = Inr res
     \<Longrightarrow> distinct (map fst res)"
proof (induction es arbitrary: i result)
  case Nil
  then show ?case by simp
next
  case (Cons e es)
  show ?case
  proof (cases "i \<in> set used")
    case True
    with Cons show ?thesis by simp
  next
    case False
    obtain r1 e1 where g: "getIndexes a e = (r1, e1)" by (cases "getIndexes a e") auto
    show ?thesis
    proof (cases r1)
      case (Inl err)
      with Cons.prems g False show ?thesis by simp
    next
      case (Inr found)
      have d: "distinct (map fst (fst (indexesIntersection a result found)))"
        by (rule indexesIntersection_distinct)
      from Cons.prems(2) g False Inr
      have "fst (getIndexesUnused a (Suc i) es used (fst (indexesIntersection a result found)))
              = Inr res"
        by (simp add: split_beta)
      with Cons.IH [OF d] show ?thesis by simp
    qed
  qed
qed

lemma getIndexes_distinct:
  assumes h: "fst (getIndexes a e) = Inr m"
  shows "distinct (map fst m)"
proof (cases e)
  case (Or l r)
  with h show ?thesis
    by (auto simp add: putMissing_distinct unionLeft_distinct split: prod.splits sum.splits)
next
  case (In l r)
  with h show ?thesis
    by (auto simp add: inIndexes_def Let_def
          split: if_splits option.splits sum.splits val.splits list.splits)
next
  case (Comparison c l r)
  with h show ?thesis
    by (auto split: prod.splits sum.splits option.splits)
next
  case (Between v lo up)
  with h show ?thesis
    by (auto simp add: betweenIndexes_def Let_def split: if_splits option.splits sum.splits)
next
  case (And l r)
  obtain r1 u1 e1 where
    g: "getMultiColumnIndexes a (splitExpression (And l r)) [] = (r1, u1, e1)"
    by (cases "getMultiColumnIndexes a (splitExpression (And l r)) []") auto
  show ?thesis
  proof (cases r1)
    case (Inl err)
    with g And h show ?thesis by (simp add: Let_def)
  next
    case (Inr result)
    with g have d: "distinct (map fst result)"
      using multiColumnTables_distinct
              [of "[]" a "columnExprsByTable (splitExpression (And l r))" "[]" result]
      by (simp add: getMultiColumnIndexes_def)
    from And g Inr h
    have "fst (getIndexesUnused a 0 (splitExpression (And l r)) u1 result) = Inr m"
      by (simp add: Let_def split_beta)
    with getIndexesUnused_distinct [OF d] show ?thesis by blast
  qed
next
  case (GetField t n)
  with h show ?thesis by auto
next
  case (Lit v)
  with h show ?thesis by auto
next
  case (Opaque k es)
  with h show ?thesis by auto
qed

lemma selectLongest_bound:
  "length sel \<le> length (selectLongest cs sel)
   \<and> (\<forall>l \<in> set cs. length l \<le> length (selectLongest cs sel))"
proof (induction cs arbitrary: sel)
  case Nil
  show ?case by simp
next
  case (Cons l ls)
  show ?case
    using Cons.IH [of "if length l > length sel then l else sel"]
    by (auto split: if_splits)
qed

lemma selectLongest_pick:
  "(selectLongest cs sel = sel \<and> (\<forall>l \<in> set cs. length l \<le> length sel))
   \<or> (\<exists>i < length cs. selectLongest cs sel = cs ! i \<and> length sel < length (cs ! i)
         \<and> (\<forall>j < i. length (cs ! j) < length (cs ! i)))"
proof (induction cs arbitrary: sel)
  case Nil
  show ?case by simp
next
  case (Cons l ls)
  show ?case
  proof (cases "length l > length sel")
    case True
    from Cons.IH [of l] show ?thesis
    proof
      assume "selectLongest ls l = l \<and> (\<forall>x \<in> set ls. length x \<le> length l)"
      with True have "selectLongest (l # ls) sel = (l # ls) ! 0
          \<and> length sel < length ((l # ls) ! 0)
          \<and> (\<forall>j < 0. length ((l # ls) ! j) < length ((l # ls) ! 0))"
        by simp
      then show ?thesis by blast
    next
      assume "\<exists>i < length ls. selectLongest ls l = ls ! i \<and> length l < length (ls ! i)
          \<and> (\<forall>j < i. length (ls ! j) < length (ls ! i))"
      then obtain i where i: "i < length ls" "selectLongest ls l = ls ! i"
        "length l < length (ls ! i)" "\<forall>j < i. length (ls ! j) < length (ls ! i)"
        by blast
      have "\<forall>j < Suc i. length ((l # ls) ! j) < length ((l # ls) ! Suc i)"
        using i by (auto simp add: nth_Cons split: nat.split)
      with True i have "Suc i < length (l # ls) \<and> selectLongest (l # ls) sel = (l # ls) ! Suc i
          \<and> length sel < length ((l # ls) ! Suc i)
          \<and> (\<forall>j < Suc i. length ((l # ls) ! j) < length ((l # ls) ! Suc i))"
        by simp
      then show ?thesis by blast
    qed
  next
    case False
    from Cons.IH [of sel] show ?thesis
    proof
      assume "selectLongest ls sel = sel \<and> (\<forall>x \<in> set ls. length x \<le> length sel)"
      with False show ?thesis by simp
    next
      assume "\<exists>i < length ls. selectLongest ls sel = ls ! i \<and> length sel < length (ls ! i)
          \<and> (\<forall>j < i. length (ls ! j) < length (ls ! i))"
      then obtain i where i: "i < length ls" "selectLongest ls sel = ls ! i"
        "length sel < length (ls ! i)" "\<forall>j < i. length (ls ! j) < length (ls ! i)"
        by blast
      have "\<forall>j < Suc i. length ((l # ls) ! j) < length ((l # ls) ! Suc i)"
        using i False by (auto simp add: nth_Cons split: nat.split)
      with False i have "Suc i < length (l # ls) \<and> selectLongest (l # ls) sel = (l # ls) ! Suc i
          \<and> length sel < length ((l # ls) ! Suc i)
          \<and> (\<forall>j < Suc i. length ((l # ls) ! j) < length ((l # ls) ! Suc i))"
        by simp
      then show ?thesis by blast
    qed
  qed
qed

lemma inUnion_append:
  "inUnion a idx lk (xs @ ys) =
     (case inUnion a idx lk xs of
        Inl err \<Rightarrow> Inl err
      | Inr None \<Rightarrow> Inr None
      | Inr (Some acc) \<Rightarrow> inUnion a idx acc ys)"
  by (induction xs arbitrary: lk) (simp_all split: sum.split)

lemma released_append: "released (xs @ ys) = released xs @ released ys"
  by (induction xs rule: released.induct) simp_all

lemma borrowed_append: "borrowed (xs @ ys) = borrowed xs @ borrowed ys"
  by (induction xs rule: borrowed.induct) simp_all

lemma released_map_Release: "released (map Release xs) = xs"
  by (induction xs) simp_all

lemma borrowed_map_Release: "borrowed (map Release xs) = []"
  by (induction xs) simp_all

lemma released_releaseAll:
  "released (releaseAll found) = concat (map (\<lambda>(table, i). indexes i) found)"
  by (induction found)
     (simp_all add: releaseAll_def released_append released_map_Release split_beta)

lemma borrowed_releaseAll: "borrowed (releaseAll found) = []"
  by (induction found)
     (simp_all add: releaseAll_def borrowed_append borrowed_map_Release split_beta)

lemma inspect_transformUp:
  "inspectNode a (fst (transformUp n found)) st = inspectNode a n st"
  "inspectNodes a (fst (transformUpAll ns found)) st = inspectNodes a ns st"
proof (induction n found and ns found arbitrary: st and st rule: transformUp_transformUpAll.induct)
  case (1 name found)
  show ?case by (simp split: option.split)
next
  case (5 e child found)
  then show ?case by (simp add: split_beta split: sum.split option.split)
next
  case (6 kind children found)
  then show ?case by (simp add: split_beta)
next
  case (8 c cs found)
  obtain c' found' where c: "transformUp c found = (c', found')"
    by (cases "transformUp c found") auto
  show ?case
    using "8.IH"(1) "8.IH"(2) [OF c [symmetric]] c by (simp add: split_beta)
qed simp_all

lemma transformUp_map_of_other:
  "t \<notin> set (tableNames n) \<Longrightarrow> map_of (snd (transformUp n found)) t = map_of found t"
  "t \<notin> set (tableNamesAll ns) \<Longrightarrow> map_of (snd (transformUpAll ns found)) t = map_of found t"
proof (induction n found and ns found rule: transformUp_transformUpAll.induct)
  case (1 name found)
  then show ?case by (simp add: delete_conv' split: option.split)
next
  case (5 e child found)
  then show ?case by (simp add: split_beta)
next
  case (6 kind children found)
  then show ?case by (simp add: split_beta)
next
  case (8 c cs found)
  obtain c' found' where c: "transformUp c found = (c', found')"
    by (cases "transformUp c found") auto
  show ?case
    using "8.IH"(1) "8.IH"(2) [OF c [symmetric]] "8.prems" c by (simp add: split_beta)
qed simp_all

lemma transformUp_stable:
  "distinct (tableNames n) \<Longrightarrow>
   (\<forall>t \<in> set (tableNames n). map_of found t = None \<longrightarrow> map_of m2 t = None) \<Longrightarrow>
   transformUp (fst (transformUp n found)) m2 = (fst (transformUp n found), m2)"
  "distinct (tableNamesAll ns) \<Longrightarrow>
   (\<forall>t \<in> set (tableNamesAll ns). map_of found t = None \<longrightarrow> map_of m2 t = None) \<Longrightarrow>
   transformUpAll (fst (transformUpAll ns found)) m2 = (fst (transformUpAll ns found), m2)"
proof (induction n found and ns found rule: transformUp_transformUpAll.induct)
  case (1 name found)
  then show ?case by (simp split: option.split)
next
  case (5 e child found)
  then show ?case by (simp add: split_beta)
next
  case (6 kind children found)
  then show ?case by (simp add: split_beta)
next
  case (8 c cs found)
  obtain c' found' where c: "transformUp c found = (c', found')"
    by (cases "transformUp c found") auto
  have h1: "transformUp c' m2 = (c', m2)"
    using "8.IH"(1) "8.prems" c by simp
  have other: "map_of found' t = map_of found t" if "t \<in> set (tableNamesAll cs)" for t
    using transformUp_map_of_other(1) [of t c found] "8.prems"(1) that c by auto
  have h2: "transformUpAll (fst (transformUpAll cs found')) m2
              = (fst (transformUpAll cs found'), m2)"
    using "8.IH"(2) [OF c [symmetric]] "8.prems" other by simp
  show ?case using c h1 h2 by (simp add: split_beta)
qed simp_all

subsection \<open>The selected list and the index of a group\<close>

lemma selectLongest_first_longest:
  assumes "i < length cs" and "0 < length (cs ! i)"
    and "\<forall>j < i. length (cs ! j) < length (cs ! i)"
    and "\<forall>l \<in> set cs. length l \<le> length (cs ! i)"
  shows "selectLongest cs [] = cs ! i"
proof -
  from assms(1) have mem: "cs ! i \<in> set cs" by simp
  with selectLongest_bound [of "[]" cs]
  have ge: "length (cs ! i) \<le> length (selectLongest cs [])" by blast
  from selectLongest_pick [of cs "[]"] show ?thesis
  proof
    assume "selectLongest cs [] = [] \<and> (\<forall>l \<in> set cs. length l \<le> length [])"
    with ge assms(2) show ?thesis by simp
  next
    assume "\<exists>k < length cs. selectLongest cs [] = cs ! k \<and> length [] < length (cs ! k)
        \<and> (\<forall>j < k. length (cs ! j) < length (cs ! k))"
    then obtain k where k: "k < length cs" "selectLongest cs [] = cs ! k"
      "\<forall>j < k. length (cs ! j) < length (cs ! k)" by blast
    from k(1) assms(4) have le: "length (cs ! k) \<le> length (cs ! i)" by simp
    from ge k(2) have ge': "length (cs ! i) \<le> length (cs ! k)" by simp
    have "k = i"
    proof (rule ccontr)
      assume "k \<noteq> i"
      then consider "k < i" | "i < k" by linarith
      then show False
      proof cases
        case 1
        with assms(3) ge' show False by fastforce
      next
        case 2
        with k(3) le show False by fastforce
      qed
    qed
    with k(2) show ?thesis by simp
  qed
qed

lemma intersectLeft_borrows_nothing:
  "borrowed (snd (intersectLeft a left right result)) = []"
proof (induction left arbitrary: result)
  case Nil
  show ?case by simp
next
  case (Cons p rest)
  obtain k v where p: "p = (k, v)" by (cases p)
  show ?case
    using Cons.IH
    by (simp add: p split_beta borrowed_append borrowed_map_Release split: option.split)
qed

lemma indexesIntersection_borrows_nothing:
  "borrowed (snd (indexesIntersection a left right)) = []"
  by (simp add: indexesIntersection_def split_beta intersectLeft_borrows_nothing)

lemma getMultiColumnIndexForExpressions_index:
  "fst (fst (getMultiColumnIndexForExpressions a selected exprs used))
     = IndexByExpression a selected
   \<and> snd (snd (getMultiColumnIndexForExpressions a selected exprs used))
     = (case IndexByExpression a selected of None \<Rightarrow> [] | Some idx \<Rightarrow> [Borrow idx])"
  by (simp add: getMultiColumnIndexForExpressions_def
        split: option.split list.split expr.split prod.split sum.split)

subsection \<open>BETWEEN and IN on the paths that return\<close>

text \<open>
  What \<^verbatim>\<open>getIndexes\<close> returns for a \<^verbatim>\<open>Between\<close> when the ascending range lookup
  implements \<^verbatim>\<open>sql.SetOperations\<close> or the index lacks a direction, and for an \<^verbatim>\<open>In\<close> when
  every point lookup merges with the union before it or the right side is no tuple.
\<close>

lemma between_lookup_construction:
  assumes "\<not> isEvaluable v" and "isEvaluable up" and "isEvaluable lo"
    and "IndexByExpression a [v] = Some idx"
    and "Eval a up = Inr upper" and "Eval a lo = Inr lower"
    and "ixAscend idx" and "ixDescend idx"
    and "AscendRange a idx [lower] [upper] = Inr asc"
    and "DescendRange a idx [upper] [lower] = Inr desc"
    and "SetOperations a asc"
  shows "getIndexes a (Between v lo up) =
           (if Mergeable a asc \<and> IsMergeable a asc desc
            then (Inr [(ixTable idx, \<lparr>lookup = Union_lk a asc desc, indexes = [idx]\<rparr>)],
                  [Borrow idx])
            else (Inr [], [Borrow idx, Release idx]))"
  using assms
  by (simp add: betweenIndexes_def betweenIndexLookup_def releaseUnused_def Let_def)

lemma between_without_capability:
  assumes "\<not> isEvaluable v" and "isEvaluable up" and "isEvaluable lo"
    and "IndexByExpression a [v] = Some idx"
    and "Eval a up = Inr upper" and "Eval a lo = Inr lower"
    and "\<not> (ixAscend idx \<and> ixDescend idx)"
  shows "getIndexes a (Between v lo up) = (Inr [], [Borrow idx, Release idx])"
proof -
  from assms(7) have "betweenIndexLookup a idx [upper] [lower] = Inr None"
    by (auto simp add: betweenIndexLookup_def)
  with assms show ?thesis
    by (simp add: betweenIndexes_def releaseUnused_def Let_def)
qed

lemma in_union_of_all:
  assumes "\<not> isEvaluable l" and "isEvaluable r"
    and "IndexByExpression a [l] = Some idx"
    and "Eval a r = Inr (VTuple (v1 # vs))"
    and "Get a idx [v1] = Inr lk1"
    and "inUnion a idx lk1 vs = Inr (Some u)"
  shows "getIndexes a (In l r) =
           (Inr [(ixTable idx, \<lparr>lookup = u, indexes = [idx]\<rparr>)], [Borrow idx])"
  using assms by (simp add: inIndexes_def releaseUnused_def)

lemma in_not_a_tuple:
  assumes "\<not> isEvaluable l" and "isEvaluable r"
    and "IndexByExpression a [l] = Some idx"
    and "Eval a r = Inr x" and "\<forall>vs. x \<noteq> VTuple vs"
  shows "getIndexes a (In l r) =
           (Inl (ErrInvalidInRightEvaluation x), [Borrow idx, Release idx])"
  using assms by (cases x) (simp_all add: inIndexes_def releaseUnused_def)

subsection \<open>Borrowed indexes of plans without AND and OR\<close>

text \<open>
  For a plan whose filters hold neither an \<^verbatim>\<open>And\<close> nor an \<^verbatim>\<open>Or\<close>, the borrowed indexes
  are those released by the pass and those that the pass put into the plan; this holds
  on the paths that end with an error or a panic as well, where the plan gains nothing.
\<close>

lemma held_simps [simp]:
  "held [] = []" "held ((t, i) # m) = indexes i @ held m" "held (m @ m') = held m @ held m'"
  by (simp_all add: held_def)

lemma update_fresh: "map_of al k = None \<Longrightarrow> AList.update k v al = al @ [(k, v)]"
  by (induction al) (auto split: if_splits)

lemma getIndexes_simple_balance:
  assumes "simplePredicate e" and "getIndexes a e = (res, evs)"
  shows "mset (borrowed evs) =
           mset (released evs) + (case res of Inl err \<Rightarrow> {#} | Inr m \<Rightarrow> mset (held m))"
proof (cases e)
  case (In l r)
  with assms(2) show ?thesis
    by (auto simp add: Let_def releaseUnused_def inIndexes_def
          split: if_splits option.splits sum.splits val.splits list.splits)
next
  case (Between v lo up)
  with assms(2) show ?thesis
    by (auto simp add: Let_def releaseUnused_def betweenIndexes_def
          split: if_splits option.splits sum.splits)
next
  case (Comparison c l r)
  with assms(2) show ?thesis
    by (auto simp add: getComparisonIndex_def Let_def
          split: if_splits option.splits sum.splits prod.splits)
next
  case (And l r)
  with assms(1) show ?thesis by simp
next
  case (Or l r)
  with assms(1) show ?thesis by simp
next
  case (GetField t n)
  with assms(2) show ?thesis by auto
next
  case (Lit v)
  with assms(2) show ?thesis by auto
next
  case (Opaque k es)
  with assms(2) show ?thesis by auto
qed


lemma intersectLeft_held:
  "distinct (map fst left) \<Longrightarrow> (\<forall>k \<in> fst ` set left. map_of result k = None) \<Longrightarrow>
   mset (held (fst (intersectLeft a left right result)))
     + mset (released (snd (intersectLeft a left right result)))
   = mset (held result) + mset (held left)
     + mset (concat (map (\<lambda>(t, idx). case map_of right t of
                                         None \<Rightarrow> [] | Some idx2 \<Rightarrow> indexes idx2) left))
   \<and> borrowed (snd (intersectLeft a left right result)) = []
   \<and> map fst (fst (intersectLeft a left right result)) = map fst result @ map fst left"
proof (induction left arbitrary: result)
  case Nil
  show ?case by simp
next
  case (Cons p rest)
  obtain k v where p: "p = (k, v)" by (cases p)
  from Cons.prems have d: "distinct (map fst rest)" and kr: "k \<notin> fst ` set rest"
    and fresh: "map_of result k = None"
    and rest_fresh: "\<forall>j \<in> fst ` set rest. map_of result j = None"
    by (auto simp add: p)
  have step: "\<forall>j \<in> fst ` set rest. map_of (AList.update k w result) j = None" for w
    using rest_fresh kr by (auto simp add: update_conv')
  show ?case
  proof (cases "map_of right k")
    case None
    with Cons.IH [OF d step [of v]] fresh show ?thesis
      by (simp add: p update_fresh)
  next
    case (Some idx2)
    show ?thesis
    proof (cases "canMergeIndexes a (lookup v) (lookup idx2)")
      case True
      with Some fresh
        Cons.IH [OF d step [of "\<lparr>lookup = Intersection_lk a (lookup v) (lookup idx2),
                                  indexes = indexes v @ indexes idx2\<rparr>"]]
      show ?thesis by (simp add: p update_fresh)
    next
      case False
      with Some fresh Cons.IH [OF d step [of v]]
      show ?thesis
        by (simp add: p update_fresh split_beta released_append borrowed_append
              released_map_Release borrowed_map_Release)
    qed
  qed
qed


lemma putMissing_held:
  "distinct (map fst right) \<Longrightarrow>
   mset (held (putMissing right result))
     = mset (held result) + mset (held (filter (\<lambda>(t, v). map_of result t = None) right))
   \<and> set (map fst (putMissing right result)) \<subseteq> set (map fst result) \<union> set (map fst right)"
proof (induction right arbitrary: result)
  case Nil
  show ?case by simp
next
  case (Cons p rest)
  obtain k v where p: "p = (k, v)" by (cases p)
  from Cons.prems have d: "distinct (map fst rest)" and kr: "k \<notin> fst ` set rest"
    by (auto simp add: p)
  show ?case
  proof (cases "map_of result k")
    case None
    have same: "filter (\<lambda>(t, w). map_of (result @ [(k, v)]) t = None) rest
                  = filter (\<lambda>(t, w). map_of result t = None) rest"
      using kr by (intro filter_cong) (force simp add: map_of_append split: option.split)+
    from Cons.IH [OF d, of "result @ [(k, v)]"]
    have ih: "mset (held (putMissing rest (result @ [(k, v)])))
                = mset (held (result @ [(k, v)]))
                  + mset (held (filter (\<lambda>(t, v). map_of result t = None) rest))"
      and sub: "set (map fst (putMissing rest (result @ [(k, v)])))
                  \<subseteq> set (map fst (result @ [(k, v)])) \<union> set (map fst rest)"
      unfolding same by blast+
    from None ih sub show ?thesis
      by (auto simp add: p update_fresh)
  next
    case (Some x)
    with Cons.IH [OF d, of result] show ?thesis
      by (auto simp add: p)
  qed
qed

lemma right_sum_cons:
  "distinct (map fst left) \<Longrightarrow> map_of rest k = None \<Longrightarrow>
   mset (concat (map (\<lambda>(t, idx). case map_of ((k, v) # rest) t of
                                    None \<Rightarrow> [] | Some idx2 \<Rightarrow> indexes idx2) left))
   = (if k \<in> fst ` set left then mset (indexes v) else {#})
     + mset (concat (map (\<lambda>(t, idx). case map_of rest t of
                                        None \<Rightarrow> [] | Some idx2 \<Rightarrow> indexes idx2) left))"
proof (induction left)
  case Nil
  show ?case by simp
next
  case (Cons p left)
  obtain t idx where p: "p = (t, idx)" by (cases p)
  from Cons.prems have d: "distinct (map fst left)" and tl: "t \<notin> fst ` set left"
    by (auto simp add: p)
  show ?case
    using Cons.IH [OF d Cons.prems(2)] tl Cons.prems(2)
    by (auto simp add: p)
qed

lemma right_split:
  "distinct (map fst left) \<Longrightarrow> distinct (map fst right) \<Longrightarrow>
   mset (concat (map (\<lambda>(t, idx). case map_of right t of
                                    None \<Rightarrow> [] | Some idx2 \<Rightarrow> indexes idx2) left))
     + mset (held (filter (\<lambda>(t, v). t \<notin> fst ` set left) right))
   = mset (held right)"
proof (induction right)
  case Nil
  show ?case by (simp add: split_beta)
next
  case (Cons p rest)
  obtain k v where p: "p = (k, v)" by (cases p)
  from Cons.prems have d: "distinct (map fst rest)" and kr: "map_of rest k = None"
    by (auto simp add: p map_of_eq_None_iff)
  show ?case
    using Cons.IH [OF Cons.prems(1) d] right_sum_cons [OF Cons.prems(1) kr, of v]
    by (simp add: p)
qed

lemma indexesIntersection_held:
  assumes "distinct (map fst left)" and "distinct (map fst right)"
  shows "mset (held (fst (indexesIntersection a left right)))
           + mset (released (snd (indexesIntersection a left right)))
         = mset (held left) + mset (held right)
         \<and> borrowed (snd (indexesIntersection a left right)) = []"
proof -
  let ?r = "fst (intersectLeft a left right [])"
  from intersectLeft_held [OF assms(1), of "[]" a right]
  have l: "mset (held ?r) + mset (released (snd (intersectLeft a left right [])))
            = mset (held left)
              + mset (concat (map (\<lambda>(t, idx). case map_of right t of
                                         None \<Rightarrow> [] | Some idx2 \<Rightarrow> indexes idx2) left))"
    and b: "borrowed (snd (intersectLeft a left right [])) = []"
    and k: "map fst ?r = map fst left"
    by simp_all
  have "fst ` set ?r = fst ` set left"
    using k by (metis set_map)
  then have f: "filter (\<lambda>(t, v). map_of ?r t = None) right
                  = filter (\<lambda>(t, v). t \<notin> fst ` set left) right"
    by (intro filter_cong) (auto simp add: map_of_eq_None_iff)
  from putMissing_held [OF assms(2), of ?r]
  have p: "mset (held (putMissing right ?r))
             = mset (held ?r) + mset (held (filter (\<lambda>(t, v). t \<notin> fst ` set left) right))"
    by (simp add: f)
  let ?c = "mset (concat (map (\<lambda>(t, idx). case map_of right t of
                                         None \<Rightarrow> [] | Some idx2 \<Rightarrow> indexes idx2) left))"
  let ?f = "mset (held (filter (\<lambda>(t, v). t \<notin> fst ` set left) right))"
  have "mset (held (putMissing right ?r)) + mset (released (snd (intersectLeft a left right [])))
          = (mset (held ?r) + mset (released (snd (intersectLeft a left right [])))) + ?f"
    using p by simp
  also have "\<dots> = (mset (held left) + ?c) + ?f"
    using l by simp
  also have "\<dots> = mset (held left) + (?c + ?f)"
    by (simp only: add.assoc)
  also have "\<dots> = mset (held left) + mset (held right)"
    using right_split [OF assms] by simp
  finally have "mset (held (putMissing right ?r))
                  + mset (released (snd (intersectLeft a left right [])))
                = mset (held left) + mset (held right)" .
  with b show ?thesis
    by (simp add: indexesIntersection_def split_beta)
qed


lemma balance_first:
  fixes b1 :: "'a multiset"
  assumes "b1 = r1 + hr" and "b3 + hr = r3 + hf'"
  shows "(b1 + b3) + {#} = (r1 + r3) + hf'"
proof -
  have "(b1 + b3) + {#} = r1 + (b3 + hr)" using assms(1) by (simp add: ac_simps)
  also have "\<dots> = r1 + (r3 + hf')" using assms(2) by simp
  finally show ?thesis by (simp add: ac_simps)
qed

lemma balance_next:
  fixes b1 :: "'a multiset"
  assumes "b1 = r1 + hr" and "b3 + hm = r3 + hf'" and "hm + r2 = hf + hr"
  shows "(b1 + b3) + hf = (r1 + r2 + r3) + hf'"
proof -
  have "(b1 + b3) + hf = r1 + (b3 + (hf + hr))" using assms(1) by (simp add: ac_simps)
  also have "\<dots> = r1 + (b3 + (hm + r2))" using assms(3) by simp
  also have "\<dots> = r1 + r2 + (b3 + hm)" by (simp add: ac_simps)
  also have "\<dots> = r1 + r2 + (r3 + hf')" using assms(2) by simp
  finally show ?thesis by (simp add: ac_simps)
qed

lemma inspect_balance:
  "simpleFilters n \<Longrightarrow> distinct (map fst (entries (snd st))) \<Longrightarrow>
     mset (borrowed (snd (inspectNode a n st))) + mset (held (entries (snd st)))
       = mset (released (snd (inspectNode a n st)))
         + mset (held (entries (snd (fst (inspectNode a n st)))))
     \<and> distinct (map fst (entries (snd (fst (inspectNode a n st)))))"
  "simpleFiltersAll ns \<Longrightarrow> distinct (map fst (entries (snd st))) \<Longrightarrow>
     mset (borrowed (snd (inspectNodes a ns st))) + mset (held (entries (snd st)))
       = mset (released (snd (inspectNodes a ns st)))
         + mset (held (entries (snd (fst (inspectNodes a ns st)))))
     \<and> distinct (map fst (entries (snd (fst (inspectNodes a ns st)))))"
proof (induction a n st and a ns st rule: inspectNode_inspectNodes.induct)
  case (1 a e child st)
  obtain res evs where g: "getIndexes a e = (res, evs)" by (cases "getIndexes a e") auto
  from "1.prems" have se: "simplePredicate e" and sc: "simpleFilters child" by simp_all
  note bal = getIndexes_simple_balance [OF se g]
  show ?case
  proof (cases res)
    case (Inl err)
    with g bal "1.prems" show ?thesis by simp
  next
    case (Inr result)
    from g Inr have dr: "distinct (map fst result)"
      using getIndexes_distinct [of a e result] by simp
    show ?thesis
    proof (cases "snd st")
      case None
      have ih: "mset (borrowed (snd (inspectNode a child (None, Some result))))
                  + mset (held result)
                = mset (released (snd (inspectNode a child (None, Some result))))
                  + mset (held (entries (snd (fst (inspectNode a child (None, Some result))))))
                \<and> distinct (map fst (entries (snd (fst (inspectNode a child (None, Some result))))))"
        using "1.IH"(1) [OF g [unfolded Inr, symmetric] refl None sc] dr
        by (simp add: entries_def)
      from bal Inr have b1: "mset (borrowed evs) = mset (released evs) + mset (held result)"
        by simp
      from balance_first [OF b1 conjunct1 [OF ih]] ih g Inr None
      show ?thesis
        by (simp add: split_beta entries_def borrowed_append released_append)
    next
      case (Some found)
      obtain merged evs2 where m: "indexesIntersection a found result = (merged, evs2)"
        by (cases "indexesIntersection a found result") auto
      from "1.prems"(2) Some have df: "distinct (map fst found)" by (simp add: entries_def)
      have dm: "distinct (map fst merged)"
        using indexesIntersection_distinct [of a found result] m by simp
      from indexesIntersection_held [OF df dr, of a] m
      have hm: "mset (held merged) + mset (released evs2) = mset (held found) + mset (held result)"
        and b2: "borrowed evs2 = []" by simp_all
      have ih: "mset (borrowed (snd (inspectNode a child (None, Some merged))))
                  + mset (held merged)
                = mset (released (snd (inspectNode a child (None, Some merged))))
                  + mset (held (entries (snd (fst (inspectNode a child (None, Some merged))))))
                \<and> distinct (map fst (entries (snd (fst (inspectNode a child (None, Some merged))))))"
        using "1.IH"(2) [OF g [unfolded Inr, symmetric] refl Some m [symmetric] refl sc] dm
        by (simp add: entries_def)
      from bal Inr have b1: "mset (borrowed evs) = mset (released evs) + mset (held result)"
        by simp
      from balance_next [OF b1 conjunct1 [OF ih] hm] ih g Inr Some m b2
      show ?thesis
        by (simp add: split_beta entries_def borrowed_append released_append)
    qed
  qed
next
  case (2 a kind children st)
  then show ?case by simp
next
  case (8 a c cs st)
  obtain st' evs where c: "inspectNode a c st = (st', evs)" by (cases "inspectNode a c st") auto
  from "8.prems" have sc: "simpleFilters c" and scs: "simpleFiltersAll cs" by simp_all
  from "8.IH"(1) [OF sc "8.prems"(2)] c
  have h1: "mset (borrowed evs) + mset (held (entries (snd st)))
              = mset (released evs) + mset (held (entries (snd st')))"
    and d1: "distinct (map fst (entries (snd st')))" by simp_all
  show ?case
  proof (cases "panicked (fst st')")
    case True
    with c h1 d1 show ?thesis by simp
  next
    case False
    from "8.IH"(2) [OF c [symmetric] False scs d1]
    have h2: "mset (borrowed (snd (inspectNodes a cs st'))) + mset (held (entries (snd st')))
                = mset (released (snd (inspectNodes a cs st')))
                  + mset (held (entries (snd (fst (inspectNodes a cs st')))))"
      and d2: "distinct (map fst (entries (snd (fst (inspectNodes a cs st')))))" by simp_all
    have "mset (borrowed evs) + mset (borrowed (snd (inspectNodes a cs st')))
            + mset (held (entries (snd st)))
          = mset (released evs) + (mset (borrowed (snd (inspectNodes a cs st')))
            + mset (held (entries (snd st'))))"
      using h1 by (simp add: ac_simps)
    also have "\<dots> = mset (released evs) + mset (released (snd (inspectNodes a cs st')))
            + mset (held (entries (snd (fst (inspectNodes a cs st')))))"
      using h2 by (simp add: ac_simps)
    finally show ?thesis using c False d2
      by (simp add: split_beta borrowed_append released_append)
  qed
qed simp_all


lemma held_delete:
  "distinct (map fst found) \<Longrightarrow> map_of found k = Some v \<Longrightarrow>
   mset (held found) = mset (indexes v) + mset (held (AList.delete k found))"
proof (induction found)
  case Nil
  then show ?case by simp
next
  case (Cons p rest)
  obtain t i where p: "p = (t, i)" by (cases p)
  show ?case
  proof (cases "t = k")
    case True
    with Cons.prems p have "i = v" and "k \<notin> fst ` set rest" by auto
    then have "AList.delete k rest = rest"
      by (simp add: delete_id)
    with True p \<open>i = v\<close> show ?thesis by simp
  next
    case False
    with Cons.prems p have "distinct (map fst rest)" and "map_of rest k = Some v" by auto
    from Cons.IH [OF this] False p show ?thesis by simp
  qed
qed

lemma transformUp_balance:
  "distinct (map fst found) \<Longrightarrow>
     mset (embedded (fst (transformUp n found))) + mset (held (snd (transformUp n found)))
       = mset (embedded n) + mset (held found)
     \<and> distinct (map fst (snd (transformUp n found)))"
  "distinct (map fst found) \<Longrightarrow>
     mset (embeddedAll (fst (transformUpAll ns found))) + mset (held (snd (transformUpAll ns found)))
       = mset (embeddedAll ns) + mset (held found)
     \<and> distinct (map fst (snd (transformUpAll ns found)))"
proof (induction n found and ns found rule: transformUp_transformUpAll.induct)
  case (1 name found)
  then show ?case
    using held_delete [of found name]
    by (auto simp add: distinct_delete split: option.split)
next
  case (5 e child found)
  then show ?case by (simp add: split_beta)
next
  case (6 kind children found)
  then show ?case by (simp add: split_beta)
next
  case (8 c cs found)
  obtain c' found' where c: "transformUp c found = (c', found')"
    by (cases "transformUp c found") auto
  from "8.IH"(1) [OF "8.prems"] c
  have h1: "mset (embedded c') + mset (held found') = mset (embedded c) + mset (held found)"
    and d1: "distinct (map fst found')" by simp_all
  from "8.IH"(2) [OF c [symmetric] d1]
  have h2: "mset (embeddedAll (fst (transformUpAll cs found')))
              + mset (held (snd (transformUpAll cs found')))
            = mset (embeddedAll cs) + mset (held found')"
    and d2: "distinct (map fst (snd (transformUpAll cs found')))" by simp_all
  have "mset (embedded c') + mset (embeddedAll (fst (transformUpAll cs found')))
          + mset (held (snd (transformUpAll cs found')))
        = mset (embedded c') + (mset (embeddedAll cs) + mset (held found'))"
    using h2 by (simp add: ac_simps)
  also have "\<dots> = mset (embeddedAll cs) + (mset (embedded c) + mset (held found))"
    using h1 by (simp add: ac_simps)
  finally show ?case using c d2 by (simp add: split_beta ac_simps)
qed simp_all

lemma assignIndexes_simple_balance:
  assumes "simpleFilters p"
  shows "mset (borrowed (snd (assignIndexes a p))) + mset (embedded p)
         = mset (released (snd (assignIndexes a p)))
           + (case fst (assignIndexes a p) of
                Inl err \<Rightarrow> mset (embedded p)
              | Inr p' \<Rightarrow> mset (embedded p'))"
proof (cases "Resolved p")
  case False
  then show ?thesis by (simp add: assignIndexes_def)
next
  case True
  obtain err m evs where i: "inspectNode a p (None, None) = ((err, m), evs)"
    by (cases "inspectNode a p (None, None)") auto
  from inspect_balance(1) [OF assms, of "(None, None)" a] i
  have b: "mset (borrowed evs) = mset (released evs) + mset (held (entries m))"
    and d: "distinct (map fst (entries m))"
    by (simp_all add: entries_def)
  have r: "released (releaseAll found) = held found" "borrowed (releaseAll found) = []"
    for found :: "'a lookups"
    by (simp_all add: released_releaseAll borrowed_releaseAll held_def)
  show ?thesis
  proof (cases err)
    case (Some e)
    with True i b show ?thesis
      by (simp add: assignIndexes_def borrowed_append released_append r ac_simps)
  next
    case None
    obtain p' rest where t: "transformUp p (entries m) = (p', rest)"
      by (cases "transformUp p (entries m)") auto
    from transformUp_balance(1) [OF d, of p] t
    have h: "mset (embedded p') + mset (held rest) = mset (embedded p) + mset (held (entries m))"
      by simp
    have "mset (borrowed evs) + mset (embedded p)
            = mset (released evs) + (mset (embedded p) + mset (held (entries m)))"
      using b by (simp add: ac_simps)
    also have "\<dots> = mset (released evs) + (mset (embedded p') + mset (held rest))"
      using h by simp
    finally show ?thesis using True i None t
      by (simp add: assignIndexes_def borrowed_append released_append r ac_simps)
  qed
qed

section \<open>Borrowed indexes (C1)\<close>

text \<open>
  C1, at an input where the pass breaks it. The filter is \<open>t.a = 1 OR t.b = 2\<close> over table
  \<open>t\<close>; each branch borrows its own index and yields a lookup for \<open>t\<close>, and the two lookups
  do not merge. The \<^verbatim>\<open>Or\<close> case keeps the left entry and drops the right one without a
  call to \<^verbatim>\<open>ReleaseIndex\<close>: of the two borrowed indexes, \<open>idx_a\<close> ends in the plan and
  \<open>idx_b\<close> is neither released nor in the plan.
\<close>

theorem assignIndexes_or_drops_right_index:
  "getIndexes memAnalyzer a_eq_1 = (Inr [(''t'', get_a_1)], [Borrow idx_a])
   \<and> getIndexes memAnalyzer b_eq_2 = (Inr [(''t'', get_b_2)], [Borrow idx_b])
   \<and> \<not> canMergeIndexes memAnalyzer (lookup get_a_1) (lookup get_b_2)
   \<and> assignIndexes memAnalyzer (Filter (Or a_eq_1 b_eq_2) (Table ''t''))
       = (Inr (Filter (Or a_eq_1 b_eq_2) (indexable get_a_1 ''t'')), [Borrow idx_a, Borrow idx_b])
   \<and> embedded (Filter (Or a_eq_1 b_eq_2) (indexable get_a_1 ''t'')) = [idx_a]
   \<and> released [Borrow idx_a, Borrow idx_b] = []"
  by code_simp

section \<open>The OR case (C2)\<close>

text \<open>
  C2 as stated fails: in \<open>t.a = 1 OR u.c = 2\<close> the right branch has no lookup for table
  \<open>t\<close> and the left branch has none for \<open>u\<close>, yet the map returned for the \<^verbatim>\<open>Or\<close> holds
  a lookup for both tables.
\<close>

theorem or_one_sided_lookup_counterexample:
  "getIndexes memAnalyzer a_eq_1 = (Inr [(''t'', get_a_1)], [Borrow idx_a])
   \<and> getIndexes memAnalyzer c_eq_2 = (Inr [(''u'', get_c_2)], [Borrow idx_c])
   \<and> map_of [(''u'', get_c_2)] ''t'' = None
   \<and> getIndexes memAnalyzer (Or a_eq_1 c_eq_2)
       = (Inr [(''t'', get_a_1), (''u'', get_c_2)], [Borrow idx_a, Borrow idx_c])
   \<and> map_of [(''t'', get_a_1), (''u'', get_c_2)] ''t'' = Some get_a_1"
  by code_simp

text \<open>
  C2 as amended: when both branches of an \<^verbatim>\<open>Or\<close> return a map, the map returned for the
  \<^verbatim>\<open>Or\<close> has a lookup for a table exactly when one of the branches has one. A table that
  only one branch has a lookup for keeps that branch's entry unchanged; a table that both
  have gets the union with both index lists when the lookups merge, and the left entry
  otherwise.
\<close>

theorem or_keeps_one_sided_lookups:
  assumes "getIndexes a l = (Inr leftIndexes, evs)"
    and "getIndexes a r = (Inr rightIndexes, evs2)"
  shows "\<exists>result. getIndexes a (Or l r) = (Inr result, evs @ evs2)
     \<and> (\<forall>table.
          map_of result table =
            (case map_of leftIndexes table of
               None \<Rightarrow> map_of rightIndexes table
             | Some idx \<Rightarrow>
                 (case map_of rightIndexes table of
                    None \<Rightarrow> Some idx
                  | Some idx2 \<Rightarrow>
                      if canMergeIndexes a (lookup idx) (lookup idx2)
                      then Some \<lparr>lookup = Union_lk a (lookup idx) (lookup idx2),
                                 indexes = indexes idx @ indexes idx2\<rparr>
                      else Some idx))
          \<and> (map_of result table = None) =
              (map_of leftIndexes table = None \<and> map_of rightIndexes table = None))"
proof -
  from assms(1) have d: "distinct (map fst leftIndexes)"
    using getIndexes_distinct [of a l leftIndexes] by simp
  have "getIndexes a (Or l r) =
          (Inr (putMissing rightIndexes (unionLeft a leftIndexes rightIndexes [])), evs @ evs2)"
    using assms by simp
  moreover have "map_of (putMissing rightIndexes (unionLeft a leftIndexes rightIndexes [])) table =
            (case map_of leftIndexes table of
               None \<Rightarrow> map_of rightIndexes table
             | Some idx \<Rightarrow>
                 (case map_of rightIndexes table of
                    None \<Rightarrow> Some idx
                  | Some idx2 \<Rightarrow>
                      if canMergeIndexes a (lookup idx) (lookup idx2)
                      then Some \<lparr>lookup = Union_lk a (lookup idx) (lookup idx2),
                                 indexes = indexes idx @ indexes idx2\<rparr>
                      else Some idx))" for table
    by (simp add: putMissing_map_of unionLeft_map_of [OF d] split: option.split)
  ultimately show ?thesis
    by (auto split: option.split)
qed

text \<open>The amended C2 at \<open>t.a = 1 OR u.c = 2\<close>.\<close>

theorem or_keeps_one_sided_lookups_witness:
  "getIndexes memAnalyzer a_eq_1 = (Inr [(''t'', get_a_1)], [Borrow idx_a])
   \<and> getIndexes memAnalyzer c_eq_2 = (Inr [(''u'', get_c_2)], [Borrow idx_c])
   \<and> (\<exists>result. getIndexes memAnalyzer (Or a_eq_1 c_eq_2)
                   = (Inr result, [Borrow idx_a] @ [Borrow idx_c])
          \<and> map_of result ''t'' = Some get_a_1 \<and> map_of result ''u'' = Some get_c_2)"
proof -
  have l: "getIndexes memAnalyzer a_eq_1 = (Inr [(''t'', get_a_1)], [Borrow idx_a])"
    by code_simp
  have r: "getIndexes memAnalyzer c_eq_2 = (Inr [(''u'', get_c_2)], [Borrow idx_c])"
    by code_simp
  from or_keeps_one_sided_lookups [OF l r] obtain result where
    res: "getIndexes memAnalyzer (Or a_eq_1 c_eq_2) = (Inr result, [Borrow idx_a] @ [Borrow idx_c])"
    and m: "\<And>table. map_of result table =
            (case map_of [(''t'', get_a_1)] table of
               None \<Rightarrow> map_of [(''u'', get_c_2)] table
             | Some idx \<Rightarrow>
                 (case map_of [(''u'', get_c_2)] table of
                    None \<Rightarrow> Some idx
                  | Some idx2 \<Rightarrow>
                      if canMergeIndexes memAnalyzer (lookup idx) (lookup idx2)
                      then Some \<lparr>lookup = Union_lk memAnalyzer (lookup idx) (lookup idx2),
                                 indexes = indexes idx @ indexes idx2\<rparr>
                      else Some idx))"
    by blast
  have "map_of result ''t'' = Some get_a_1" by (simp add: m)
  moreover have "map_of result ''u'' = Some get_c_2" by (simp add: m)
  ultimately show ?thesis using l r res by blast
qed

section \<open>Errors (C3)\<close>

text \<open>
  C3 as stated fails: in \<open>t.a = 1 OR t.b IN 2\<close> the right side of the \<^verbatim>\<open>In\<close> is not a
  tuple, so \<^verbatim>\<open>getIndexes\<close> returns an error. \<^verbatim>\<open>assignIndexes\<close> then returns the error with
  no plan, not the input plan; and \<open>idx_a\<close>, borrowed for the left branch of the \<^verbatim>\<open>Or\<close>,
  is never released.
\<close>

theorem assignIndexes_error_counterexample:
  "getIndexes memAnalyzer (Or a_eq_1 b_in_2)
     = (Inl (ErrInvalidInRightEvaluation (VInt 2)), [Borrow idx_a, Borrow idx_b, Release idx_b])
   \<and> assignIndexes memAnalyzer (Filter (Or a_eq_1 b_in_2) (Table ''t''))
       = (Inl (ErrInvalidInRightEvaluation (VInt 2)), [Borrow idx_a, Borrow idx_b, Release idx_b])
   \<and> fst (assignIndexes memAnalyzer (Filter (Or a_eq_1 b_in_2) (Table ''t'')))
       \<noteq> Inr (Filter (Or a_eq_1 b_in_2) (Table ''t''))
   \<and> borrowed [Borrow idx_a, Borrow idx_b, Release idx_b] = [idx_a, idx_b]
   \<and> released [Borrow idx_a, Borrow idx_b, Release idx_b] = [idx_b]"
  by code_simp

text \<open>
  C3 as amended: when the walk over the filters of a resolved plan ends with an error of
  \<^verbatim>\<open>getIndexes\<close>, \<^verbatim>\<open>assignIndexes\<close> returns that error and no plan, and its deferred
  function releases once every index of the lookup map gathered from the filters visited
  before, and borrows nothing; in particular an error in the filter at the root of the
  plan is returned with no further call to the catalog. When no filter of the plan holds
  an \<^verbatim>\<open>And\<close> or an \<^verbatim>\<open>Or\<close>, every index borrowed during the pass has been released when
  \<^verbatim>\<open>assignIndexes\<close> returns the error. A comparison, an \<^verbatim>\<open>In\<close> or a \<^verbatim>\<open>Between\<close> that fails
  has released the index it borrowed when \<^verbatim>\<open>getIndexes\<close> returns. The indexes that an
  enclosing \<^verbatim>\<open>Or\<close> or \<^verbatim>\<open>And\<close> holds when a part of it fails are left out of the
  statement.
\<close>

theorem assignIndexes_error_releases_pass_map:
  "(Resolved node \<and> inspectNode a node (None, None) = ((Some err, found), evs) \<longrightarrow>
      assignIndexes a node = (Inl err, evs @ releaseAll (entries found))
      \<and> released (releaseAll (entries found))
          = concat (map (\<lambda>(table, i). indexes i) (entries found))
      \<and> borrowed (releaseAll (entries found)) = [])
   \<and> (Resolved child \<and> getIndexes a e = (Inl err, evs) \<longrightarrow>
        assignIndexes a (Filter e child) = (Inl err, evs))
   \<and> (simpleFilters node \<and> assignIndexes a node = (Inl err, evs) \<longrightarrow>
        mset (borrowed evs) = mset (released evs))
   \<and> (getIndexes a (In l r) = (Inl err, evs) \<longrightarrow> borrowed evs = released evs)
   \<and> (getIndexes a (Between v lo up) = (Inl err, evs) \<longrightarrow> borrowed evs = released evs)
   \<and> (getIndexes a (Comparison c l r) = (Inl err, evs) \<longrightarrow> borrowed evs = released evs)"
proof (intro conjI impI)
  assume "Resolved node \<and> inspectNode a node (None, None) = ((Some err, found), evs)"
  then show "assignIndexes a node = (Inl err, evs @ releaseAll (entries found))"
    by (simp add: assignIndexes_def)
next
  show "released (releaseAll (entries found))
          = concat (map (\<lambda>(table, i). indexes i) (entries found))"
    by (rule released_releaseAll)
next
  show "borrowed (releaseAll (entries found)) = []"
    by (rule borrowed_releaseAll)
next
  assume "Resolved child \<and> getIndexes a e = (Inl err, evs)"
  then show "assignIndexes a (Filter e child) = (Inl err, evs)"
    by (simp add: assignIndexes_def releaseAll_def entries_def)
next
  assume "simpleFilters node \<and> assignIndexes a node = (Inl err, evs)"
  then show "mset (borrowed evs) = mset (released evs)"
    using assignIndexes_simple_balance [of node a] by simp
next
  assume "getIndexes a (In l r) = (Inl err, evs)"
  then show "borrowed evs = released evs"
    by (auto simp add: Let_def releaseUnused_def split: if_splits option.splits)
next
  assume "getIndexes a (Between v lo up) = (Inl err, evs)"
  then show "borrowed evs = released evs"
    by (auto simp add: Let_def releaseUnused_def split: if_splits option.splits)
next
  assume "getIndexes a (Comparison c l r) = (Inl err, evs)"
  then show "borrowed evs = released evs"
    by (auto simp add: getComparisonIndex_def Let_def
          split: if_splits option.splits sum.splits prod.splits)
qed

text \<open>
  The amended C3 at the plan \<open>Filter (t.a = 1) (Filter (t.b IN 2) t)\<close>: the second filter
  fails, and \<open>idx_a\<close>, held in the map since the first filter, is released.
\<close>

theorem assignIndexes_error_releases_pass_map_witness:
  "Resolved (Filter a_eq_1 (Filter b_in_2 (Table ''t'') :: memLookup node))
   \<and> simpleFilters (Filter a_eq_1 (Filter b_in_2 (Table ''t'') :: memLookup node))
   \<and> inspectNode memAnalyzer (Filter a_eq_1 (Filter b_in_2 (Table ''t''))) (None, None)
       = ((Some (ErrInvalidInRightEvaluation (VInt 2)), Some [(''t'', get_a_1)]),
          [Borrow idx_a, Borrow idx_b, Release idx_b])
   \<and> assignIndexes memAnalyzer (Filter a_eq_1 (Filter b_in_2 (Table ''t'')))
       = (Inl (ErrInvalidInRightEvaluation (VInt 2)),
          [Borrow idx_a, Borrow idx_b, Release idx_b, Release idx_a])
   \<and> mset (borrowed [Borrow idx_a, Borrow idx_b, Release idx_b, Release idx_a])
       = mset (released [Borrow idx_a, Borrow idx_b, Release idx_b, Release idx_a])
   \<and> getIndexes memAnalyzer b_in_2
       = (Inl (ErrInvalidInRightEvaluation (VInt 2)), [Borrow idx_b, Release idx_b])
   \<and> borrowed [Borrow idx_b, Release idx_b] = released [Borrow idx_b, Release idx_b]"
proof -
  let ?p = "Filter a_eq_1 (Filter b_in_2 (Table ''t'')) :: memLookup node"
  let ?err = "ErrInvalidInRightEvaluation (VInt 2)"
  have r: "Resolved ?p"
    by simp
  have sf: "simpleFilters ?p"
    by code_simp
  have i: "inspectNode memAnalyzer ?p (None, None)
       = ((Some ?err, Some [(''t'', get_a_1)]), [Borrow idx_a, Borrow idx_b, Release idx_b])"
    by code_simp
  have g: "getIndexes memAnalyzer b_in_2 = (Inl ?err, [Borrow idx_b, Release idx_b])"
    by code_simp
  have rel: "releaseAll (entries (Some [(''t'', get_a_1)])) = [Release idx_a]"
    by code_simp
  note inst = assignIndexes_error_releases_pass_map
         [where node = "?p" and a = memAnalyzer and err = "?err"
            and found = "Some [(''t'', get_a_1)]"
            and evs = "[Borrow idx_a, Borrow idx_b, Release idx_b]"]
  from inst r i
  have "assignIndexes memAnalyzer ?p
       = (Inl ?err, [Borrow idx_a, Borrow idx_b, Release idx_b]
                      @ releaseAll (entries (Some [(''t'', get_a_1)])))"
    by blast
  with rel have res: "assignIndexes memAnalyzer ?p
       = (Inl ?err, [Borrow idx_a, Borrow idx_b, Release idx_b, Release idx_a])"
    by simp
  from assignIndexes_error_releases_pass_map
         [where node = "?p" and a = memAnalyzer and err = "?err"
            and evs = "[Borrow idx_a, Borrow idx_b, Release idx_b, Release idx_a]"]
       sf res
  have bal: "mset (borrowed [Borrow idx_a, Borrow idx_b, Release idx_b, Release idx_a])
       = mset (released [Borrow idx_a, Borrow idx_b, Release idx_b, Release idx_a])"
    by blast
  from g have "borrowed [Borrow idx_b, Release idx_b] = released [Borrow idx_b, Release idx_b]"
    by simp
  with r sf i res bal g show ?thesis by blast
qed

section \<open>The IN case (C4, C10)\<close>

text \<open>
  C4 as stated fails: for \<open>t.a IN (1, 2, 3)\<close> with a driver whose lookups refuse to merge
  with the point lookup of 3, the first two point lookups merge into their union and
  the third does not merge with it. The claim has the pass return a map that carries
  that union for table \<open>t\<close> and keep the index; the pass returns the empty map and
  releases the index.
\<close>

theorem in_early_stop_counterexample:
  "inUnion pickyAnalyzer idx_a (GetLookup ''idx_a'' [VInt 1]) [VInt 2]
     = Inr (Some (UnionLookup (GetLookup ''idx_a'' [VInt 1]) (GetLookup ''idx_a'' [VInt 2])))
   \<and> \<not> canMergeIndexes pickyAnalyzer
         (UnionLookup (GetLookup ''idx_a'' [VInt 1]) (GetLookup ''idx_a'' [VInt 2]))
         (GetLookup ''idx_a'' [VInt 3])
   \<and> fst (getIndexes pickyAnalyzer a_in_123)
       \<noteq> Inr [(''t'', \<lparr>lookup = UnionLookup (GetLookup ''idx_a'' [VInt 1])
                                   (GetLookup ''idx_a'' [VInt 2]),
                        indexes = [idx_a]\<rparr>)]
   \<and> fst (getIndexes pickyAnalyzer a_in_123) = Inr []
   \<and> released (snd (getIndexes pickyAnalyzer a_in_123)) = [idx_a]"
  by code_simp

text \<open>
  C4 as amended: for an \<^verbatim>\<open>In\<close> whose left side bears a column, whose right side
  evaluates to a tuple and for which the catalog has an index, if the point lookups of the
  first elements merge into a partial union and the point lookup of the next element
  does not merge with it, then \<^verbatim>\<open>getIndexes\<close> returns without error the empty map: the
  partial union is dropped and the borrowed index is released.
\<close>

theorem in_early_stop_returns_empty_map:
  assumes "\<not> isEvaluable l" and "isEvaluable r"
    and "IndexByExpression a [l] = Some idx"
    and "Eval a r = Inr (VTuple (v1 # before @ vk # rest))"
    and "Get a idx [v1] = Inr lk1"
    and "inUnion a idx lk1 before = Inr (Some partial)"
    and "Get a idx [vk] = Inr lkk"
    and "\<not> canMergeIndexes a partial lkk"
  shows "getIndexes a (In l r) = (Inr [], [Borrow idx, Release idx])"
  using assms by (simp add: inIndexes_def inUnion_append releaseUnused_def)

text \<open>The amended C4 at \<open>t.a IN (1, 2, 3)\<close>, where the third element stops the union.\<close>

theorem in_early_stop_returns_empty_map_witness:
  "\<not> isEvaluable (GetField ''t'' ''a'') \<and> isEvaluable (Lit (VTuple [VInt 1, VInt 2, VInt 3]))
   \<and> IndexByExpression pickyAnalyzer [GetField ''t'' ''a''] = Some idx_a
   \<and> Eval pickyAnalyzer (Lit (VTuple [VInt 1, VInt 2, VInt 3]))
       = Inr (VTuple (VInt 1 # [VInt 2] @ VInt 3 # []))
   \<and> Get pickyAnalyzer idx_a [VInt 1] = Inr (GetLookup ''idx_a'' [VInt 1])
   \<and> inUnion pickyAnalyzer idx_a (GetLookup ''idx_a'' [VInt 1]) [VInt 2]
       = Inr (Some (UnionLookup (GetLookup ''idx_a'' [VInt 1]) (GetLookup ''idx_a'' [VInt 2])))
   \<and> Get pickyAnalyzer idx_a [VInt 3] = Inr (GetLookup ''idx_a'' [VInt 3])
   \<and> \<not> canMergeIndexes pickyAnalyzer
         (UnionLookup (GetLookup ''idx_a'' [VInt 1]) (GetLookup ''idx_a'' [VInt 2]))
         (GetLookup ''idx_a'' [VInt 3])
   \<and> getIndexes pickyAnalyzer
         (In (GetField ''t'' ''a'') (Lit (VTuple [VInt 1, VInt 2, VInt 3])))
       = (Inr [], [Borrow idx_a, Release idx_a])"
proof -
  have h1: "\<not> isEvaluable (GetField ''t'' ''a'')" by code_simp
  have h2: "isEvaluable (Lit (VTuple [VInt 1, VInt 2, VInt 3]))" by code_simp
  have h3: "IndexByExpression pickyAnalyzer [GetField ''t'' ''a''] = Some idx_a" by code_simp
  have h4: "Eval pickyAnalyzer (Lit (VTuple [VInt 1, VInt 2, VInt 3]))
              = Inr (VTuple (VInt 1 # [VInt 2] @ VInt 3 # []))" by code_simp
  have h5: "Get pickyAnalyzer idx_a [VInt 1] = Inr (GetLookup ''idx_a'' [VInt 1])" by code_simp
  have h6: "inUnion pickyAnalyzer idx_a (GetLookup ''idx_a'' [VInt 1]) [VInt 2]
       = Inr (Some (UnionLookup (GetLookup ''idx_a'' [VInt 1]) (GetLookup ''idx_a'' [VInt 2])))"
    by code_simp
  have h7: "Get pickyAnalyzer idx_a [VInt 3] = Inr (GetLookup ''idx_a'' [VInt 3])" by code_simp
  have h8: "\<not> canMergeIndexes pickyAnalyzer
         (UnionLookup (GetLookup ''idx_a'' [VInt 1]) (GetLookup ''idx_a'' [VInt 2]))
         (GetLookup ''idx_a'' [VInt 3])" by code_simp
  from in_early_stop_returns_empty_map [OF h1 h2 h3 h4 h5 h6 h7 h8]
  show ?thesis using h1 h2 h3 h4 h5 h6 h7 h8 by blast
qed

text \<open>
  C10, at an input where the pass breaks it. The right side of \<open>t.a IN ()\<close> evaluates to
  the empty tuple, which is a tuple, so it is not refused as an invalid right side; the
  pass then reads \<^verbatim>\<open>values[0]\<close> of a slice of length 0, and Go panics with an index out
  of range.
\<close>

theorem getIndexes_in_empty_tuple_panics:
  "Eval memAnalyzer (Lit (VTuple [])) = Inr (VTuple [])
   \<and> getIndexes memAnalyzer (In (GetField ''t'' ''a'') (Lit (VTuple [])))
       = (Inl (Panic IndexOutOfRange), [Borrow idx_a, Release idx_a])"
  by code_simp

section \<open>Comparisons (C5)\<close>

text \<open>
  C5: a comparison with exactly one side that bears a column, an index of the catalog for
  that side and a value \<open>v\<close> for the other side. \<^verbatim>\<open>Equals\<close> asks the index for \<open>Get v\<close>;
  \<^verbatim>\<open>GreaterThan\<close> for \<open>DescendGreater v\<close> and \<^verbatim>\<open>LessThanOrEqual\<close> for \<open>DescendLessOrEqual v\<close>, both
  only of an index that implements \<^verbatim>\<open>sql.DescendIndex\<close>; \<^verbatim>\<open>GreaterThanOrEqual\<close> for
  \<open>AscendGreaterOrEqual v\<close> and \<^verbatim>\<open>LessThan\<close> for \<open>AscendLessThan v\<close>, both only of an index that
  implements \<^verbatim>\<open>sql.AscendIndex\<close>. The lookup becomes the entry of the index's table, with
  the index as the only borrowed one. Without the capability the index is released and
  the map is empty; the same release follows an error of the driver.
\<close>

theorem comparison_capability_mapping:
  assumes "isEvaluable l \<noteq> isEvaluable r"
    and "IndexByExpression a [if isEvaluable r then l else r] = Some idx"
    and "Eval a (if isEvaluable r then r else l) = Inr v"
  shows "getIndexes a (Comparison c l r) =
     (let entry = (\<lambda>res. case res of
                      Inl msg \<Rightarrow> (Inl (ErrOther msg), [Borrow idx, Release idx])
                    | Inr lk \<Rightarrow>
                        (Inr [(ixTable idx, \<lparr>lookup = lk, indexes = [idx]\<rparr>)], [Borrow idx]));
          none = (Inr [], [Borrow idx, Release idx])
      in case c of
           Equals \<Rightarrow> entry (Get a idx [v])
         | GreaterThan \<Rightarrow> if ixDescend idx then entry (DescendGreater a idx [v]) else none
         | GreaterThanOrEqual \<Rightarrow>
             if ixAscend idx then entry (AscendGreaterOrEqual a idx [v]) else none
         | LessThan \<Rightarrow> if ixAscend idx then entry (AscendLessThan a idx [v]) else none
         | LessThanOrEqual \<Rightarrow>
             if ixDescend idx then entry (DescendLessOrEqual a idx [v]) else none)"
proof (cases "isEvaluable r")
  case True
  with assms have "\<not> isEvaluable l" "IndexByExpression a [l] = Some idx" "Eval a r = Inr v"
    by simp_all
  with True show ?thesis
    by (cases c)
       (simp_all add: getComparisonIndex_def comparisonIndexLookup_def Let_def split: sum.split)
next
  case False
  with assms have "isEvaluable l" "IndexByExpression a [r] = Some idx" "Eval a l = Inr v"
    by simp_all
  with False show ?thesis
    by (cases c)
       (simp_all add: getComparisonIndex_def comparisonIndexLookup_def Let_def split: sum.split)
qed

text \<open>
  C5 at \<open>1 = t.a\<close>, where the sides are swapped and \<open>idx_a\<close> answers, and at \<open>t.b > 1\<close>,
  where \<open>idx_b\<close> does not implement \<^verbatim>\<open>sql.DescendIndex\<close>.
\<close>

theorem comparison_capability_mapping_witness:
  "isEvaluable (Lit (VInt 1)) \<noteq> isEvaluable (GetField ''t'' ''a'')
   \<and> IndexByExpression memAnalyzer [GetField ''t'' ''a''] = Some idx_a
   \<and> Eval memAnalyzer (Lit (VInt 1)) = Inr (VInt 1)
   \<and> getIndexes memAnalyzer (Comparison Equals (Lit (VInt 1)) (GetField ''t'' ''a''))
       = (Inr [(''t'', get_a_1)], [Borrow idx_a])
   \<and> IndexByExpression memAnalyzer [GetField ''t'' ''b''] = Some idx_b
   \<and> \<not> ixDescend idx_b
   \<and> getIndexes memAnalyzer (Comparison GreaterThan (GetField ''t'' ''b'') (Lit (VInt 1)))
       = (Inr [], [Borrow idx_b, Release idx_b])"
proof -
  have e: "isEvaluable (Lit (VInt 1))" and ne: "\<not> isEvaluable (GetField ''t'' ''a'')"
    and ne': "\<not> isEvaluable (GetField ''t'' ''b'')"
    by (simp_all add: isEvaluable_def)
  have ia: "IndexByExpression memAnalyzer [GetField ''t'' ''a''] = Some idx_a" by code_simp
  have ib: "IndexByExpression memAnalyzer [GetField ''t'' ''b''] = Some idx_b" by code_simp
  have v: "Eval memAnalyzer (Lit (VInt 1)) = Inr (VInt 1)" by code_simp
  have d: "\<not> ixDescend idx_b" by code_simp
  have g: "Get memAnalyzer idx_a [VInt 1] = Inr (GetLookup ''idx_a'' [VInt 1])" by code_simp
  have t: "ixTable idx_a = ''t''" by code_simp
  have "getIndexes memAnalyzer (Comparison Equals (Lit (VInt 1)) (GetField ''t'' ''a''))
       = (Inr [(''t'', get_a_1)], [Borrow idx_a])"
    using comparison_capability_mapping
            [of "Lit (VInt 1)" "GetField ''t'' ''a''" memAnalyzer idx_a "VInt 1" Equals]
          e ne ia v g t
    by (simp add: get_a_1_def)
  moreover
  have "getIndexes memAnalyzer (Comparison GreaterThan (GetField ''t'' ''b'') (Lit (VInt 1)))
       = (Inr [], [Borrow idx_b, Release idx_b])"
    using comparison_capability_mapping
            [of "GetField ''t'' ''b''" "Lit (VInt 1)" memAnalyzer idx_b "VInt 1" GreaterThan]
          e ne' ib v d
    by simp
  ultimately show ?thesis using e ne ia ib v d by simp
qed

section \<open>The BETWEEN case (C6)\<close>

text \<open>
  C6, at an input where the pass breaks it. The index walks both ways and the ascending
  range lookup implements \<^verbatim>\<open>sql.Mergeable\<close> and says it merges with the descending one,
  but it does not implement \<^verbatim>\<open>sql.SetOperations\<close>. \<^verbatim>\<open>betweenIndexLookup\<close> asserts that
  interface without the check that \<^verbatim>\<open>canMergeIndexes\<close> makes, so the pass panics where the
  claim has it build the union or return no entry.
\<close>

theorem getIndexes_between_without_set_operations_panics:
  "ixAscend idx_a \<and> ixDescend idx_a
   \<and> AscendRange plainAnalyzer idx_a [VInt 1] [VInt 9]
       = Inr (AscendRangeLookup ''idx_a'' [VInt 1] [VInt 9])
   \<and> DescendRange plainAnalyzer idx_a [VInt 9] [VInt 1]
       = Inr (DescendRangeLookup ''idx_a'' [VInt 9] [VInt 1])
   \<and> Mergeable plainAnalyzer (AscendRangeLookup ''idx_a'' [VInt 1] [VInt 9])
   \<and> IsMergeable plainAnalyzer (AscendRangeLookup ''idx_a'' [VInt 1] [VInt 9])
         (DescendRangeLookup ''idx_a'' [VInt 9] [VInt 1])
   \<and> \<not> SetOperations plainAnalyzer (AscendRangeLookup ''idx_a'' [VInt 1] [VInt 9])
   \<and> getIndexes plainAnalyzer (Between (GetField ''t'' ''a'') (Lit (VInt 1)) (Lit (VInt 9)))
       = (Inl (Panic InterfaceConversion), [Borrow idx_a, Release idx_a])"
  by code_simp

section \<open>Intersection (C7)\<close>

text \<open>
  C7: \<^verbatim>\<open>indexesIntersection\<close> on two maps, the left one with one entry per table. For a
  table that both maps have, the result holds the intersection of the two lookups with
  the index lists of the left and of the right entry appended, when the left lookup
  implements \<^verbatim>\<open>sql.Mergeable\<close>, says it merges with the right one and implements
  \<^verbatim>\<open>sql.SetOperations\<close>; otherwise it holds the left entry as it was, and every index of
  the right entry is released. A table that one map has keeps its entry. Nothing else is
  released.
\<close>

theorem indexesIntersection_policy:
  assumes "distinct (map fst left)"
  shows "map_of (fst (indexesIntersection a left right)) table =
           (case map_of left table of
              None \<Rightarrow> map_of right table
            | Some idx \<Rightarrow>
                (case map_of right table of
                   None \<Rightarrow> Some idx
                 | Some idx2 \<Rightarrow>
                     if Mergeable a (lookup idx) \<and> IsMergeable a (lookup idx) (lookup idx2)
                        \<and> SetOperations a (lookup idx)
                     then Some \<lparr>lookup = Intersection_lk a (lookup idx) (lookup idx2),
                                indexes = indexes idx @ indexes idx2\<rparr>
                     else Some idx))
         \<and> snd (indexesIntersection a left right) =
             concat (map (\<lambda>(table, idx).
               case map_of right table of
                 None \<Rightarrow> []
               | Some idx2 \<Rightarrow>
                   if Mergeable a (lookup idx) \<and> IsMergeable a (lookup idx) (lookup idx2)
                      \<and> SetOperations a (lookup idx)
                   then []
                   else map Release (indexes idx2)) left)"
proof -
  have m: "canMergeIndexes a x y = (Mergeable a x \<and> IsMergeable a x y \<and> SetOperations a x)"
    for x y by (simp add: canMergeIndexes_def)
  show ?thesis
    using intersectLeft_map_of [OF assms, of a right "[]" table]
    by (simp add: indexesIntersection_fst indexesIntersection_snd putMissing_map_of
          intersectLeft_events m split: option.split cong: option.case_cong)
qed

text \<open>
  C7 at a left map with \<open>idx_a\<close> for table \<open>t\<close> and a right map with \<open>idx_b\<close> for \<open>t\<close> and
  \<open>idx_c\<close> for \<open>u\<close>: the lookups for \<open>t\<close> do not merge, so the left entry stays and
  \<open>idx_b\<close> is released; the entry for \<open>u\<close> passes through.
\<close>

theorem indexesIntersection_policy_witness:
  "distinct (map fst [(''t'', get_a_1)])
   \<and> map_of (fst (indexesIntersection memAnalyzer [(''t'', get_a_1)]
                     [(''t'', get_b_2), (''u'', get_c_2)])) ''t'' = Some get_a_1
   \<and> map_of (fst (indexesIntersection memAnalyzer [(''t'', get_a_1)]
                     [(''t'', get_b_2), (''u'', get_c_2)])) ''u'' = Some get_c_2
   \<and> snd (indexesIntersection memAnalyzer [(''t'', get_a_1)]
             [(''t'', get_b_2), (''u'', get_c_2)]) = [Release idx_b]"
proof -
  have d: "distinct (map fst [(''t'', get_a_1 :: memLookup indexLookup)])" by simp
  have m: "\<not> IsMergeable memAnalyzer (lookup get_a_1) (lookup get_b_2)" by code_simp
  have i: "indexes get_b_2 = [idx_b]" by code_simp
  from indexesIntersection_policy
         [OF d, of memAnalyzer "[(''t'', get_b_2), (''u'', get_c_2)]" "''t''"] m i
  have t: "map_of (fst (indexesIntersection memAnalyzer [(''t'', get_a_1)]
                     [(''t'', get_b_2), (''u'', get_c_2)])) ''t'' = Some get_a_1"
    and r: "snd (indexesIntersection memAnalyzer [(''t'', get_a_1)]
             [(''t'', get_b_2), (''u'', get_c_2)]) = [Release idx_b]"
    by simp_all
  from indexesIntersection_policy
         [OF d, of memAnalyzer "[(''t'', get_b_2), (''u'', get_c_2)]" "''u''"]
  have u: "map_of (fst (indexesIntersection memAnalyzer [(''t'', get_a_1)]
                     [(''t'', get_b_2), (''u'', get_c_2)])) ''u'' = Some get_c_2"
    by simp
  from d t u r show ?thesis by blast
qed

section \<open>Running the pass twice (C8)\<close>

text \<open>
  C8 as stated fails: over a join of table \<open>t\<close> with itself the first run wraps the first
  \<open>t\<close> and takes the entry out of the map, so the second \<open>t\<close> stays as it is; a second
  run skips the wrapper, finds the entry again and wraps the second \<open>t\<close>.
\<close>

theorem assignIndexes_twice_counterexample:
  "assignIndexes memAnalyzer (Filter a_eq_1 (Node ''CrossJoin'' [Table ''t'', Table ''t'']))
     = (Inr (Filter a_eq_1 (Node ''CrossJoin'' [indexable get_a_1 ''t'', Table ''t''])),
        [Borrow idx_a])
   \<and> assignIndexes memAnalyzer
         (Filter a_eq_1 (Node ''CrossJoin'' [indexable get_a_1 ''t'', Table ''t'']))
       = (Inr (Filter a_eq_1 (Node ''CrossJoin'' [indexable get_a_1 ''t'', indexable get_a_1 ''t''])),
          [Borrow idx_a])
   \<and> Filter a_eq_1 (Node ''CrossJoin'' [indexable get_a_1 ''t'', indexable get_a_1 ''t''])
       \<noteq> Filter a_eq_1 (Node ''CrossJoin'' [indexable get_a_1 ''t'', Table ''t''])"
  by code_simp

text \<open>
  C8 as amended: for a plan in which no two tables that the pass may still wrap have the
  same name, a run of \<^verbatim>\<open>assignIndexes\<close> on the plan that a first run returned returns
  that plan again; and a wrapper or an \<^verbatim>\<open>IndexableTable\<close> is never wrapped, whatever the
  map holds.
\<close>

theorem assignIndexes_idempotent_distinct_tables:
  assumes "assignIndexes a p = (Inr p', evs)" and "distinct (tableNames p)"
  shows "fst (assignIndexes a p') = Inr p'
     \<and> transformUp (indexable idx name) found = (indexable idx name, found)
     \<and> transformUp (IndexableTable name) found = (IndexableTable name, found)"
proof (cases "Resolved p")
  case False
  with assms show ?thesis by (simp add: assignIndexes_def)
next
  case True
  obtain err m evs0 where i: "inspectNode a p (None, None) = ((err, m), evs0)"
    by (cases "inspectNode a p (None, None)") auto
  from assms(1) True i have e: "err = None" and p': "p' = fst (transformUp p (entries m))"
    by (auto simp add: assignIndexes_def split: option.splits prod.splits)
  have i': "inspectNode a p' (None, None) = ((None, m), evs0)"
    using inspect_transformUp(1) [of a p "entries m" "(None, None)"] i e p' by simp
  have t': "transformUp p' (entries m) = (p', entries m)"
    using transformUp_stable(1) [OF assms(2), of "entries m" "entries m"] p' by simp
  show ?thesis using i' t' by (simp add: assignIndexes_def)
qed

text \<open>The amended C8 at the plan \<open>Filter (t.a = 1) t\<close>.\<close>

theorem assignIndexes_idempotent_distinct_tables_witness:
  "assignIndexes memAnalyzer (Filter a_eq_1 (Table ''t''))
     = (Inr (Filter a_eq_1 (indexable get_a_1 ''t'')), [Borrow idx_a])
   \<and> distinct (tableNames (Filter a_eq_1 (Table ''t'') :: memLookup node))
   \<and> fst (assignIndexes memAnalyzer (Filter a_eq_1 (indexable get_a_1 ''t'')))
       = Inr (Filter a_eq_1 (indexable get_a_1 ''t''))"
proof -
  have r: "assignIndexes memAnalyzer (Filter a_eq_1 (Table ''t''))
     = (Inr (Filter a_eq_1 (indexable get_a_1 ''t'')), [Borrow idx_a])"
    by code_simp
  have d: "distinct (tableNames (Filter a_eq_1 (Table ''t'') :: memLookup node))"
    by simp
  from assignIndexes_idempotent_distinct_tables [OF r d] r d show ?thesis by blast
qed

section \<open>The longest candidate (C9)\<close>

text \<open>
  C9: for a group \<open>exps\<close> of one table and one kind of comparison, let \<open>cands\<close> be the
  lists that \<^verbatim>\<open>ExpressionsWithIndexes\<close> returns for the columns of the group. No list is
  longer than the selected one, and when there is a list at all the selected one is one
  of them and every list before it is strictly shorter. When \<open>cands\<close> is empty, or holds
  empty lists only, the group leaves the map, the used conjuncts and the catalog as they
  were. Otherwise, for the first of the longest lists, \<open>cands ! i\<close>: the one index the
  group borrows is the index the catalog has for \<open>cands ! i\<close>, and the group returns what
  the rest of the loop body makes of \<^verbatim>\<open>getMultiColumnIndexForExpressions\<close> called with
  \<open>cands ! i\<close>: the error, after the release of the index; the map as it was, after the
  release, when there is no lookup; the map with the lookup stored for the table, or
  intersected with the entry the table has. \<^verbatim>\<open>getMultiColumnIndexes\<close> on conjuncts that
  form one group returns what this body returns for it.
\<close>

theorem selected_is_first_longest:
  assumes "ExpressionsWithIndexes a (map col exps) = cands"
  shows
    "(\<forall>l \<in> set cands. length l \<le> length (selectLongest cands []))
     \<and> (cands \<noteq> [] \<longrightarrow>
          (\<exists>i < length cands. selectLongest cands [] = cands ! i
             \<and> (\<forall>j < i. length (cands ! j) < length (cands ! i))))
     \<and> (cands = [] \<longrightarrow>
          multiColumnGroup a table exps result used = (Inr result, used, []))
     \<and> ((\<forall>l \<in> set cands. l = []) \<longrightarrow>
          multiColumnGroup a table exps result used = (Inr result, used, []))
     \<and> (\<forall>i < length cands.
          0 < length (cands ! i)
          \<and> (\<forall>j < i. length (cands ! j) < length (cands ! i))
          \<and> (\<forall>l \<in> set cands. length l \<le> length (cands ! i)) \<longrightarrow>
            borrowed (snd (snd (multiColumnGroup a table exps result used)))
              = (case IndexByExpression a (cands ! i) of None \<Rightarrow> [] | Some idx \<Rightarrow> [idx])
            \<and> multiColumnGroup a table exps result used =
                (case getMultiColumnIndexForExpressions a (cands ! i) exps used of
                   ((idx, lk, err), used', evs) \<Rightarrow>
                     (case err of
                        Some e \<Rightarrow>
                          if isPanic e then (Inl e, used', evs)
                          else (Inl e, used',
                                evs @ (case idx of None \<Rightarrow> [] | Some x \<Rightarrow> [Release x]))
                      | None \<Rightarrow>
                          (case lk of
                             None \<Rightarrow>
                               (Inr result, used',
                                evs @ (case idx of None \<Rightarrow> [] | Some x \<Rightarrow> [Release x]))
                           | Some l \<Rightarrow>
                               (case idx of
                                  None \<Rightarrow> (Inr result, used', evs)
                                | Some x \<Rightarrow>
                                    (case map_of result table of
                                       Some y \<Rightarrow>
                                         (Inr (fst (indexesIntersection a result
                                                      [(table, \<lparr>lookup = l, indexes = [x]\<rparr>)])),
                                          used',
                                          evs @ snd (indexesIntersection a result
                                                       [(table, \<lparr>lookup = l, indexes = [x]\<rparr>)]))
                                     | None \<Rightarrow>
                                         (Inr (AList.update table
                                                 \<lparr>lookup = l, indexes = [x]\<rparr> result),
                                          used', evs)))))))
     \<and> (columnExprsByTable exprs = [(table, exps)] \<and> groupExpressionsByOperator exps = [exps]
          \<longrightarrow> getMultiColumnIndexes a exprs used = multiColumnGroup a table exps [] used)"
proof (intro conjI impI allI)
  show "\<forall>l \<in> set cands. length l \<le> length (selectLongest cands [])"
    using selectLongest_bound [of "[]" cands] by simp
next
  assume ne: "cands \<noteq> []"
  from selectLongest_pick [of cands "[]"]
  show "\<exists>i < length cands. selectLongest cands [] = cands ! i
           \<and> (\<forall>j < i. length (cands ! j) < length (cands ! i))"
  proof
    assume e: "selectLongest cands [] = [] \<and> (\<forall>l \<in> set cands. length l \<le> length [])"
    with ne have z: "cands ! 0 = []" by (cases cands) auto
    from e have s: "selectLongest cands [] = cands ! 0" unfolding z by blast
    from ne have "0 < length cands" by simp
    with s have "0 < length cands \<and> selectLongest cands [] = cands ! 0
           \<and> (\<forall>j < 0. length (cands ! j) < length (cands ! 0))" by blast
    then show ?thesis by blast
  next
    assume "\<exists>i < length cands. selectLongest cands [] = cands ! i
        \<and> length [] < length (cands ! i) \<and> (\<forall>j < i. length (cands ! j) < length (cands ! i))"
    then show ?thesis by blast
  qed
next
  assume "cands = []"
  with assms show "multiColumnGroup a table exps result used = (Inr result, used, [])"
    by (simp add: multiColumnGroup_def)
next
  assume all: "\<forall>l \<in> set cands. l = []"
  have "length (selectLongest cands []) = 0"
  proof (rule ccontr)
    assume n: "length (selectLongest cands []) \<noteq> 0"
    from selectLongest_pick [of cands "[]"] n
    obtain k where "k < length cands" "selectLongest cands [] = cands ! k" by auto
    with all n show False by simp
  qed
  with assms show "multiColumnGroup a table exps result used = (Inr result, used, [])"
    by (simp add: multiColumnGroup_def)
next
  fix i
  assume i: "i < length cands"
    and h: "0 < length (cands ! i)
          \<and> (\<forall>j < i. length (cands ! j) < length (cands ! i))
          \<and> (\<forall>l \<in> set cands. length l \<le> length (cands ! i))"
  from selectLongest_first_longest [OF i] h
  have sel: "selectLongest cands [] = cands ! i" by blast
  obtain idx lk err used' evs where
    g: "getMultiColumnIndexForExpressions a (cands ! i) exps used = ((idx, lk, err), used', evs)"
    by (cases "getMultiColumnIndexForExpressions a (cands ! i) exps used") auto
  from getMultiColumnIndexForExpressions_index [of a "cands ! i" exps used] g
  have ix: "idx = IndexByExpression a (cands ! i)"
    and ev: "evs = (case IndexByExpression a (cands ! i) of None \<Rightarrow> [] | Some x \<Rightarrow> [Borrow x])"
    by simp_all
  show "borrowed (snd (snd (multiColumnGroup a table exps result used)))
          = (case IndexByExpression a (cands ! i) of None \<Rightarrow> [] | Some idx \<Rightarrow> [idx])"
    using assms sel h g ix ev
    by (auto simp add: multiColumnGroup_def Let_def split_beta borrowed_append
          indexesIntersection_borrows_nothing split: option.splits)
  show "multiColumnGroup a table exps result used =
                (case getMultiColumnIndexForExpressions a (cands ! i) exps used of
                   ((idx, lk, err), used', evs) \<Rightarrow>
                     (case err of
                        Some e \<Rightarrow>
                          if isPanic e then (Inl e, used', evs)
                          else (Inl e, used',
                                evs @ (case idx of None \<Rightarrow> [] | Some x \<Rightarrow> [Release x]))
                      | None \<Rightarrow>
                          (case lk of
                             None \<Rightarrow>
                               (Inr result, used',
                                evs @ (case idx of None \<Rightarrow> [] | Some x \<Rightarrow> [Release x]))
                           | Some l \<Rightarrow>
                               (case idx of
                                  None \<Rightarrow> (Inr result, used', evs)
                                | Some x \<Rightarrow>
                                    (case map_of result table of
                                       Some y \<Rightarrow>
                                         (Inr (fst (indexesIntersection a result
                                                      [(table, \<lparr>lookup = l, indexes = [x]\<rparr>)])),
                                          used',
                                          evs @ snd (indexesIntersection a result
                                                       [(table, \<lparr>lookup = l, indexes = [x]\<rparr>)]))
                                     | None \<Rightarrow>
                                         (Inr (AList.update table
                                                 \<lparr>lookup = l, indexes = [x]\<rparr> result),
                                          used', evs))))))"
    using assms sel h
    by (simp add: multiColumnGroup_def Let_def split_beta
          split: option.split cong: option.case_cong)
next
  assume "columnExprsByTable exprs = [(table, exps)] \<and> groupExpressionsByOperator exps = [exps]"
  then show "getMultiColumnIndexes a exprs used = multiColumnGroup a table exps [] used"
    by (cases "multiColumnGroup a table exps [] used")
       (auto simp add: getMultiColumnIndexes_def split: sum.split prod.split)
qed

text \<open>
  C9 at the conjuncts \<open>t.a = 1\<close> and \<open>t.b = 2\<close> with a catalog that returns the lists
  \<open>[a]\<close>, \<open>[a, b]\<close> and \<open>[b, a]\<close>: the second list is the first of the longest, so the
  group borrows \<open>idx_ab\<close> and not \<open>idx_a\<close>, the index of the first list, and stores the
  composite lookup of the keys 1 and 2.
\<close>

theorem selected_is_first_longest_witness:
  "ExpressionsWithIndexes wideAnalyzer (map col ab_columns) = ab_candidates
   \<and> 1 < length ab_candidates
   \<and> length (ab_candidates ! 0) < length (ab_candidates ! 1)
   \<and> length (ab_candidates ! 2) = length (ab_candidates ! 1)
   \<and> IndexByExpression wideAnalyzer (ab_candidates ! 0) = Some idx_a
   \<and> IndexByExpression wideAnalyzer (ab_candidates ! 1) = Some idx_ab
   \<and> borrowed (snd (snd (multiColumnGroup wideAnalyzer ''t'' ab_columns [] []))) = [idx_ab]
   \<and> multiColumnGroup wideAnalyzer ''t'' ab_columns [] []
       = (Inr [(''t'', \<lparr>lookup = GetLookup ''idx_ab'' [VInt 1, VInt 2], indexes = [idx_ab]\<rparr>)],
          [1, 0], [Borrow idx_ab])
   \<and> getMultiColumnIndexes wideAnalyzer [a_eq_1, b_eq_2] []
       = multiColumnGroup wideAnalyzer ''t'' ab_columns [] []"
proof -
  have c: "ExpressionsWithIndexes wideAnalyzer (map col ab_columns) = ab_candidates"
    by code_simp
  have i: "1 < length ab_candidates" by code_simp
  have l0: "length (ab_candidates ! 0) < length (ab_candidates ! 1)" by code_simp
  have l2: "length (ab_candidates ! 2) = length (ab_candidates ! 1)" by code_simp
  have ia: "IndexByExpression wideAnalyzer (ab_candidates ! 0) = Some idx_a" by code_simp
  have iab: "IndexByExpression wideAnalyzer (ab_candidates ! 1) = Some idx_ab" by code_simp
  have h: "0 < length (ab_candidates ! 1)
          \<and> (\<forall>j < 1. length (ab_candidates ! j) < length (ab_candidates ! 1))
          \<and> (\<forall>l \<in> set ab_candidates. length l \<le> length (ab_candidates ! 1))"
    by (simp add: ab_candidates_def)
  have one: "columnExprsByTable [a_eq_1, b_eq_2] = [(''t'', ab_columns)]
               \<and> groupExpressionsByOperator ab_columns = [ab_columns]"
    by code_simp
  note inst = selected_is_first_longest
                [OF c, where table = "''t''" and result = "[]" and used = "[]"
                   and exprs = "[a_eq_1, b_eq_2]"]
  note grp = inst [THEN conjunct2, THEN conjunct2, THEN conjunct2, THEN conjunct2,
                   THEN conjunct1, rule_format, OF i h]
  note lnk = inst [THEN conjunct2, THEN conjunct2, THEN conjunct2, THEN conjunct2,
                   THEN conjunct2, rule_format, OF one]
  have g: "getMultiColumnIndexForExpressions wideAnalyzer (ab_candidates ! 1) ab_columns []
             = ((Some idx_ab, Some (GetLookup ''idx_ab'' [VInt 1, VInt 2]), None),
                [1, 0], [Borrow idx_ab])"
    by code_simp
  from grp [THEN conjunct1] iab have b': "borrowed (snd (snd (multiColumnGroup wideAnalyzer ''t'' ab_columns [] [])))
             = [idx_ab]"
    by simp
  from grp [THEN conjunct2] g have e': "multiColumnGroup wideAnalyzer ''t'' ab_columns [] []
       = (Inr [(''t'', \<lparr>lookup = GetLookup ''idx_ab'' [VInt 1, VInt 2], indexes = [idx_ab]\<rparr>)],
          [1, 0], [Borrow idx_ab])"
    by simp
  have top: "getMultiColumnIndexes wideAnalyzer [a_eq_1, b_eq_2] []
       = multiColumnGroup wideAnalyzer ''t'' ab_columns [] []"
    by (rule lnk)
  show ?thesis
    by (intro conjI c i l0 l2 ia iab b' e' top)
qed

end
